theory Spec2Isabelle
  imports Main
begin

section \<open>Text\<close>

text \<open>
  A JavaScript string is modelled as a \<^typ>\<open>string\<close>, one \<^typ>\<open>char\<close> per code unit, so
  the model covers the texts whose code units are below 256. The character classes of
  the regular expressions of the source (\<open>\d\<close>, \<open>[A-Z]\<close>, \<open>[a-z]\<close>) are ASCII classes in
  JavaScript as well, since no pattern carries the \<open>u\<close> flag.
\<close>

definition isDigit :: "char \<Rightarrow> bool" where
  "isDigit c = (c \<in> set ''0123456789'')"

definition isUpper :: "char \<Rightarrow> bool" where
  "isUpper c = (c \<in> set ''ABCDEFGHIJKLMNOPQRSTUVWXYZ'')"

definition isLower :: "char \<Rightarrow> bool" where
  "isLower c = (c \<in> set ''abcdefghijklmnopqrstuvwxyz'')"

text \<open>
  \<open>String.prototype.trim\<close> removes white space and line terminators at both ends: below
  256 these are TAB, LF, VT, FF, CR, SPACE and NBSP.
\<close>

definition isSpace :: "char \<Rightarrow> bool" where
  "isSpace c = (c \<in> set [CHR 0x09, CHR 0x0A, CHR 0x0B, CHR 0x0C, CHR 0x0D, CHR 0x20, CHR 0xA0])"

definition trim :: "string \<Rightarrow> string" where
  "trim s = rev (dropWhile isSpace (rev (dropWhile isSpace s)))"

text \<open>
  \<open>toLowerCase\<close> and \<open>toUpperCase\<close>, code unit by code unit: the ASCII letters, and the
  letters of the upper half (\<open>0xC0\<close> to \<open>0xDE\<close> without \<open>0xD7\<close>, and \<open>0xE0\<close> to \<open>0xFE\<close>
  without \<open>0xF7\<close>). Three code units have an upper-case form that is no single code
  unit below 256 (\<open>0xB5\<close>, \<open>0xDF\<close> and \<open>0xFF\<close>); they are left as they are, and the source
  upper-cases the first letter of a matched \<open>open\<close> or \<open>closed\<close> only.
\<close>

definition toLowerChar :: "char \<Rightarrow> char" where
  "toLowerChar c =
     (case map_of
        (zip (''ABCDEFGHIJKLMNOPQRSTUVWXYZ'' @
          [
            CHR 0xC0, CHR 0xC1, CHR 0xC2, CHR 0xC3, CHR 0xC4, CHR 0xC5, CHR 0xC6, CHR 0xC7,
            CHR 0xC8, CHR 0xC9, CHR 0xCA, CHR 0xCB, CHR 0xCC, CHR 0xCD, CHR 0xCE, CHR 0xCF,
            CHR 0xD0, CHR 0xD1, CHR 0xD2, CHR 0xD3, CHR 0xD4, CHR 0xD5, CHR 0xD6, CHR 0xD8,
            CHR 0xD9, CHR 0xDA, CHR 0xDB, CHR 0xDC, CHR 0xDD, CHR 0xDE ])
          (''abcdefghijklmnopqrstuvwxyz'' @
          [
            CHR 0xE0, CHR 0xE1, CHR 0xE2, CHR 0xE3, CHR 0xE4, CHR 0xE5, CHR 0xE6, CHR 0xE7,
            CHR 0xE8, CHR 0xE9, CHR 0xEA, CHR 0xEB, CHR 0xEC, CHR 0xED, CHR 0xEE, CHR 0xEF,
            CHR 0xF0, CHR 0xF1, CHR 0xF2, CHR 0xF3, CHR 0xF4, CHR 0xF5, CHR 0xF6, CHR 0xF8,
            CHR 0xF9, CHR 0xFA, CHR 0xFB, CHR 0xFC, CHR 0xFD, CHR 0xFE ])) c of
        None \<Rightarrow> c
      | Some d \<Rightarrow> d)"

definition toUpperChar :: "char \<Rightarrow> char" where
  "toUpperChar c =
     (case map_of
        (zip (''abcdefghijklmnopqrstuvwxyz'' @
          [
            CHR 0xE0, CHR 0xE1, CHR 0xE2, CHR 0xE3, CHR 0xE4, CHR 0xE5, CHR 0xE6, CHR 0xE7,
            CHR 0xE8, CHR 0xE9, CHR 0xEA, CHR 0xEB, CHR 0xEC, CHR 0xED, CHR 0xEE, CHR 0xEF,
            CHR 0xF0, CHR 0xF1, CHR 0xF2, CHR 0xF3, CHR 0xF4, CHR 0xF5, CHR 0xF6, CHR 0xF8,
            CHR 0xF9, CHR 0xFA, CHR 0xFB, CHR 0xFC, CHR 0xFD, CHR 0xFE ])
          (''ABCDEFGHIJKLMNOPQRSTUVWXYZ'' @
          [
            CHR 0xC0, CHR 0xC1, CHR 0xC2, CHR 0xC3, CHR 0xC4, CHR 0xC5, CHR 0xC6, CHR 0xC7,
            CHR 0xC8, CHR 0xC9, CHR 0xCA, CHR 0xCB, CHR 0xCC, CHR 0xCD, CHR 0xCE, CHR 0xCF,
            CHR 0xD0, CHR 0xD1, CHR 0xD2, CHR 0xD3, CHR 0xD4, CHR 0xD5, CHR 0xD6, CHR 0xD8,
            CHR 0xD9, CHR 0xDA, CHR 0xDB, CHR 0xDC, CHR 0xDD, CHR 0xDE ])) c of
        None \<Rightarrow> c
      | Some d \<Rightarrow> d)"

definition toLowerCase :: "string \<Rightarrow> string" where
  "toLowerCase s = map toLowerChar s"

definition toUpperCase :: "string \<Rightarrow> string" where
  "toUpperCase s = map toUpperChar s"

fun startsWith :: "string \<Rightarrow> string \<Rightarrow> bool" where
  "startsWith s [] = True"
| "startsWith [] (k # ks) = False"
| "startsWith (c # cs) (k # ks) = (c = k \<and> startsWith cs ks)"

text \<open>\<open>s.includes(k)\<close>: \<open>k\<close> occurs in \<open>s\<close> as a contiguous run.\<close>

fun includesStr :: "string \<Rightarrow> string \<Rightarrow> bool" where
  "includesStr [] k = (k = [])"
| "includesStr (c # cs) k = (startsWith (c # cs) k \<or> includesStr cs k)"

text \<open>
  The truthiness of the result of \<open>textContent().catch(() => null)\<close>: \<open>null\<close> and the
  empty string are falsy.
\<close>

definition truthy :: "string option \<Rightarrow> bool" where
  "truthy v = (case v of None \<Rightarrow> False | Some s \<Rightarrow> s \<noteq> [])"

section \<open>The page\<close>

text \<open>
  What the extraction code reads of the browser page, as a snapshot. Every awaited call
  on a locator in the field helper carries its own \<open>catch\<close> handler, so a failing call
  is the value of its handler: \<open>isVisible\<close> is \<open>False\<close>, a text is \<open>None\<close> (also the
  value of a \<open>null\<close> text content). The text of a section container is read without a
  handler inside a \<open>try\<close> block: \<open>Inl\<close> is the exception.
\<close>

record Page =
  nameText :: "string option"
  isVisible :: "string \<Rightarrow> bool"
  siblingText :: "string \<Rightarrow> string option"
  parentSiblingText :: "string \<Rightarrow> string option"
  containerText :: "string \<Rightarrow> string + string option"

section \<open>Field locator\<close>

definition dq :: string where
  "dq = [CHR 0x22]"

text \<open>The four selectors built from one label, in the order of the source.\<close>

definition patterns :: "string \<Rightarrow> string list" where
  "patterns label =
     [ ''text='' @ dq @ label @ dq,
       ''text=/.*'' @ label @ ''.*/i'',
       ''[data-testid*='' @ dq @ toLowerCase label @ dq @ '']'',
       ''label:has-text('' @ dq @ label @ dq @ '')'' ]"

text \<open>
  The inner loop of \<open>extractFieldValue\<close>: \<open>Some v\<close> is \<open>return v\<close>, \<open>None\<close> is the end of
  the loop with nothing returned.
\<close>

fun tryPatterns :: "Page \<Rightarrow> string list \<Rightarrow> string option" where
  "tryPatterns pg [] = None"
| "tryPatterns pg (p # ps) =
     (if isVisible pg p then
        (if truthy (siblingText pg p) then Some (trim (the (siblingText pg p)))
         else if truthy (parentSiblingText pg p) then Some (trim (the (parentSiblingText pg p)))
         else tryPatterns pg ps)
      else tryPatterns pg ps)"

fun tryLabels :: "Page \<Rightarrow> string list \<Rightarrow> string" where
  "tryLabels pg [] = []"
| "tryLabels pg (l # ls) =
     (case tryPatterns pg (patterns l) of
        Some v \<Rightarrow> v
      | None \<Rightarrow> tryLabels pg ls)"

definition extractFieldValue :: "Page option \<Rightarrow> string list \<Rightarrow> string" where
  "extractFieldValue page labels =
     (case page of None \<Rightarrow> [] | Some pg \<Rightarrow> tryLabels pg labels)"

section \<open>Risk level\<close>

definition extractRiskLevel :: "Page option \<Rightarrow> string" where
  "extractRiskLevel page =
     (case page of
        None \<Rightarrow> ''Unknown''
      | Some pg \<Rightarrow>
          (let riskLevel = extractFieldValue page [''Risk Level'', ''Risk'', ''Risk Score'', ''Risk Rating'']
           in if riskLevel \<noteq> [] then
                (let lowercaseText = toLowerCase riskLevel
                 in if includesStr lowercaseText ''high'' \<or> includesStr lowercaseText ''critical'' then ''High''
                    else if includesStr lowercaseText ''medium'' \<or> includesStr lowercaseText ''moderate'' then ''Medium''
                    else if includesStr lowercaseText ''low'' \<or> includesStr lowercaseText ''minimal'' then ''Low''
                    else trim riskLevel)
              else ''Unknown''))"

section \<open>Regular expressions of fixed width\<close>

text \<open>
  The pieces of the patterns of the source that match one code unit each: \<open>\d\<close>, a
  literal, and a literal under the \<open>i\<close> flag (two code units match when their upper-case
  forms agree). \<open>matchAtoms\<close> matches a sequence of them at the head of a text and
  returns the rest of the text.
\<close>

datatype atom = Digit | Lit char | LitI char

fun atomMatches :: "atom \<Rightarrow> char \<Rightarrow> bool" where
  "atomMatches Digit c = isDigit c"
| "atomMatches (Lit k) c = (c = k)"
| "atomMatches (LitI k) c = (toUpperChar c = toUpperChar k)"

fun matchAtoms :: "atom list \<Rightarrow> string \<Rightarrow> string option" where
  "matchAtoms [] s = Some s"
| "matchAtoms (a # as) [] = None"
| "matchAtoms (a # as) (c # cs) = (if atomMatches a c then matchAtoms as cs else None)"

text \<open>\<open>\d{4}-\d{2}-\d{2}\<close>\<close>

definition datePattern :: "atom list" where
  "datePattern =
     [Digit, Digit, Digit, Digit, Lit (CHR ''-''), Digit, Digit, Lit (CHR ''-''), Digit, Digit]"

section \<open>String.prototype.split with a regular expression\<close>

text \<open>
  The separator is given by its matcher at a position: \<open>sep s\<close> is \<open>Some k\<close> when the
  separator matches \<open>k\<close> code units at the head of \<open>s\<close>. \<open>splitLoop sep cur s\<close> is the loop
  of the language's split: \<open>cur\<close> is the piece from \<open>p\<close> to \<open>q\<close>, \<open>s\<close> the text from \<open>q\<close> on.
  A match that ends where the piece starts (\<open>e = p\<close>: an empty match with an empty piece)
  is passed over. After an empty match that closes a non-empty piece, the next round
  finds the same empty match at \<open>q = p\<close> and passes over it, which is the step to
  \<open>[c]\<close> written in the branch of the empty match.
\<close>

fun splitLoop :: "(string \<Rightarrow> nat option) \<Rightarrow> string \<Rightarrow> string \<Rightarrow> string list" where
  "splitLoop sep cur [] = [cur]"
| "splitLoop sep cur (c # cs) =
     (case sep (c # cs) of
        None \<Rightarrow> splitLoop sep (cur @ [c]) cs
      | Some 0 \<Rightarrow> (if cur = [] then splitLoop sep [c] cs else cur # splitLoop sep [c] cs)
      | Some (Suc k) \<Rightarrow> cur # splitLoop sep [] (drop k cs))"

definition jsSplit :: "(string \<Rightarrow> nat option) \<Rightarrow> string \<Rightarrow> string list" where
  "jsSplit sep s = (if s = [] then (if sep [] = None then [[]] else []) else splitLoop sep [] s)"

text \<open>\<open>/(?=[A-Z])/\<close>\<close>

definition capitalAhead :: "string \<Rightarrow> nat option" where
  "capitalAhead s = (case s of [] \<Rightarrow> None | c # cs \<Rightarrow> if isUpper c then Some 0 else None)"

section \<open>Numbers\<close>

definition digitVal :: "char \<Rightarrow> int" where
  "digitVal c = (case map_of (zip ''0123456789'' [0, 1, 2, 3, 4, 5, 6, 7, 8, 9]) c of None \<Rightarrow> 0 | Some d \<Rightarrow> d)"

definition digitsValue :: "string \<Rightarrow> int" where
  "digitsValue ds = foldl (\<lambda>n c. 10 * n + digitVal c) 0 ds"

text \<open>The decimal numeral of a number, as a template literal prints it.\<close>

fun showNat :: "nat \<Rightarrow> string" where
  "showNat n = (if n < 10 then [''0123456789'' ! n] else showNat (n div 10) @ [''0123456789'' ! (n mod 10)])"

declare showNat.simps [simp del]

text \<open>
  \<open>parseFloat\<close> on a text of digits with an optional fraction: \<open>Some (m, k)\<close> is the
  number \<open>m / 10 ^ k\<close>, \<open>None\<close> is \<open>NaN\<close>. The source calls it on a matched amount
  without its \<open>$\<close> and commas, that is on digits, a point and two digits, where no sign,
  exponent or white space occurs. The number the language computes is the double next
  to \<open>m / 100\<close>; rounding is monotone and keeps 10000, and 10000.01 rounds above it,
  so the comparison with 10000 is the comparison of the exact numbers.
\<close>

definition parseFloat :: "string \<Rightarrow> (int \<times> nat) option" where
  "parseFloat s =
     (let ip = takeWhile isDigit s;
          r = dropWhile isDigit s;
          fp = (case r of [] \<Rightarrow> [] | c # t \<Rightarrow> if c = CHR ''.'' then takeWhile isDigit t else [])
      in if ip = [] \<and> fp = [] then None else Some (digitsValue (ip @ fp), length fp))"

text \<open>\<open>x > n\<close> for a parsed number; a comparison with \<open>NaN\<close> is false.\<close>

definition exceeds :: "(int \<times> nat) option \<Rightarrow> int \<Rightarrow> bool" where
  "exceeds x n = (case x of None \<Rightarrow> False | Some (m, k) \<Rightarrow> n * 10 ^ k < m)"

section \<open>Transactions\<close>

record Transaction =
  tx_id :: string
  tx_date :: string
  tx_amount :: string
  counterparty :: string
  tx_type :: string
  tx_status :: string
  flagged :: bool

text \<open>
  The pattern
  \<open>/(\d{4}-\d{2}-\d{2})([^$\d]+?)(\$[\d,]+\.\d{2})(?=\d{4}|$)/g\<close>
  at one position, with the backtracking of the language: the lazy run of the second
  group grows by one code unit each time the rest fails, the greedy run of the third
  gives code units back from the longest down to one.
\<close>

definition isTextChar :: "char \<Rightarrow> bool" where
  "isTextChar c = (c \<noteq> CHR ''$'' \<and> \<not> isDigit c)"

definition isDigitOrComma :: "char \<Rightarrow> bool" where
  "isDigitOrComma c = (isDigit c \<or> c = CHR '','')"

text \<open>\<open>\.\d{2}(?=\d{4}|$)\<close>: the rest after the two decimals.\<close>

definition amountTail :: "string \<Rightarrow> string option" where
  "amountTail s =
     (case matchAtoms [Lit (CHR ''.''), Digit, Digit] s of
        None \<Rightarrow> None
      | Some rest \<Rightarrow>
          if matchAtoms [Digit, Digit, Digit, Digit] rest \<noteq> None \<or> rest = [] then Some rest
          else None)"

text \<open>\<open>[\d,]+\<close> of \<open>n\<close> code units at most, followed by the tail: the run with the decimals, and the rest.\<close>

fun greedyDigits :: "nat \<Rightarrow> string \<Rightarrow> (string \<times> string) option" where
  "greedyDigits 0 s = None"
| "greedyDigits (Suc n) s =
     (case amountTail (drop (Suc n) s) of
        Some rest \<Rightarrow> Some (take (Suc n + 3) s, rest)
      | None \<Rightarrow> greedyDigits n s)"

definition matchAmount :: "string \<Rightarrow> (string \<times> string) option" where
  "matchAmount s =
     (case s of
        [] \<Rightarrow> None
      | c # t \<Rightarrow>
          if c = CHR ''$'' then
            (case greedyDigits (length (takeWhile isDigitOrComma t)) t of
               None \<Rightarrow> None
             | Some (m, rest) \<Rightarrow> Some (c # m, rest))
          else None)"

text \<open>\<open>lazyText acc s\<close>: the second group has matched \<open>acc\<close>, the text goes on with \<open>s\<close>.\<close>

fun lazyText :: "string \<Rightarrow> string \<Rightarrow> (string \<times> string \<times> string) option" where
  "lazyText acc [] = None"
| "lazyText acc (c # cs) =
     (case matchAmount (c # cs) of
        Some (amount, rest) \<Rightarrow> Some (acc, amount, rest)
      | None \<Rightarrow> if isTextChar c then lazyText (acc @ [c]) cs else None)"

text \<open>The three groups of a match at the head of \<open>s\<close>, and the text after the match.\<close>

definition matchTransaction :: "string \<Rightarrow> (string \<times> string \<times> string \<times> string) option" where
  "matchTransaction s =
     (case matchAtoms datePattern s of
        None \<Rightarrow> None
      | Some r \<Rightarrow>
          (case r of
             [] \<Rightarrow> None
           | c # cs \<Rightarrow>
               if isTextChar c then
                 (case lazyText [c] cs of
                    None \<Rightarrow> None
                  | Some (mc, amount, rest) \<Rightarrow> Some (take 10 s, mc, amount, rest))
               else None))"

text \<open>\<open>parseFloat(amount.replace(/[$,]/g, ''))\<close>\<close>

definition numericAmount :: "string \<Rightarrow> (int \<times> nat) option" where
  "numericAmount amount = parseFloat (filter (\<lambda>c. c \<noteq> CHR ''$'' \<and> c \<noteq> CHR '','') amount)"

text \<open>The body of the loop: the transaction built from the groups, \<open>n\<close> transactions being there already.\<close>

definition mkTransaction :: "nat \<Rightarrow> string \<Rightarrow> string \<Rightarrow> string \<Rightarrow> Transaction" where
  "mkTransaction n date merchantAndCategory amount =
     (let parts = jsSplit capitalAhead (trim merchantAndCategory);
          joined = trim (concat (butlast parts));
          merchant = (if joined \<noteq> [] then joined else trim merchantAndCategory);
          lastPart = (case parts of [] \<Rightarrow> [] | _ \<Rightarrow> trim (last parts));
          category = (if lastPart \<noteq> [] then lastPart else ''Transfer'')
      in \<lparr> tx_id = ''TXN-'' @ showNat (n + 1),
           tx_date = date,
           tx_amount = amount,
           counterparty = (if merchant \<noteq> [] then merchant else ''Unknown''),
           tx_type = category,
           tx_status = ''Completed'',
           flagged = (includesStr (toLowerCase merchant) ''crypto''
                      \<or> exceeds (numericAmount amount) 10000) \<rparr>)"

lemma matchAtoms_length:
  "matchAtoms ps s = Some r \<Longrightarrow> length r + length ps = length s"
  by (induction ps s rule: matchAtoms.induct) (auto split: if_splits)

lemma amountTail_length: "amountTail s = Some r \<Longrightarrow> length r < length s"
  by (auto simp: amountTail_def split: option.splits if_splits dest: matchAtoms_length)

lemma greedyDigits_length: "greedyDigits n s = Some (m, r) \<Longrightarrow> length r < length s"
  by (induction n) (auto split: option.splits dest!: amountTail_length)

lemma matchAmount_length: "matchAmount s = Some (m, r) \<Longrightarrow> length r < length s"
  by (auto simp: matchAmount_def split: list.splits if_splits option.splits dest!: greedyDigits_length)

lemma lazyText_length: "lazyText acc s = Some (t, a, r) \<Longrightarrow> length r < length s"
  by (induction acc s rule: lazyText.induct)
     (auto split: option.splits if_splits dest!: matchAmount_length)

lemma matchTransaction_length:
  "matchTransaction s = Some (d, t, a, r) \<Longrightarrow> length r < length s"
  by (auto simp: matchTransaction_def split: option.splits list.splits if_splits
           dest!: lazyText_length matchAtoms_length)

text \<open>
  The loop \<open>while ((match = transactionPattern.exec(containerText)) !== null)\<close>: the
  search goes on after the last match and moves one code unit to the right where the
  pattern fails; \<open>acc\<close> is the array \<open>transactions\<close>.
\<close>

function scanTransactions :: "Transaction list \<Rightarrow> string \<Rightarrow> Transaction list" where
  "scanTransactions acc [] = acc"
| "scanTransactions acc (c # cs) =
     (case matchTransaction (c # cs) of
        None \<Rightarrow> scanTransactions acc cs
      | Some (date, mc, amount, rest) \<Rightarrow>
          scanTransactions (acc @ [mkTransaction (length acc) date mc amount]) rest)"
  by pat_completeness auto
termination
  by (relation "measure (\<lambda>(acc, s). length s)")
     (auto dest!: matchTransaction_length)

definition parseTransactions :: "string \<Rightarrow> Transaction list" where
  "parseTransactions blob = scanTransactions [] blob"

definition headingSelector :: "string \<Rightarrow> string" where
  "headingSelector heading = ''text='' @ dq @ heading @ dq"

text \<open>
  \<open>extractTransactions\<close>: without a page, without a visible heading, or when reading
  the container throws (the \<open>catch\<close> of the method), the result is empty. A \<open>null\<close>
  text content is the empty text.
\<close>

definition extractTransactions :: "Page option \<Rightarrow> Transaction list" where
  "extractTransactions page =
     (case page of
        None \<Rightarrow> []
      | Some pg \<Rightarrow>
          if isVisible pg (headingSelector ''Recent Transactions'') then
            (case containerText pg (headingSelector ''Recent Transactions'') of
               Inl err \<Rightarrow> []
             | Inr t \<Rightarrow> parseTransactions (case t of None \<Rightarrow> [] | Some s \<Rightarrow> s))
          else [])"

subsection \<open>Well-formed transaction blobs\<close>

text \<open>
  The shape of a blob the parser is meant for, in the words of the specification: a
  calendar date, a non-empty text without \<open>$\<close> and without digits, and a currency
  amount (\<open>$\<close>, digits and commas, a point, two digits), repeated, with nothing else.
\<close>

definition isDate :: "string \<Rightarrow> bool" where
  "isDate d = (matchAtoms datePattern d = Some [])"

definition isMiddleText :: "string \<Rightarrow> bool" where
  "isMiddleText t = (t \<noteq> [] \<and> list_all isTextChar t)"

definition isAmount :: "string \<Rightarrow> bool" where
  "isAmount a =
     (case a of
        [] \<Rightarrow> False
      | c # t \<Rightarrow>
          c = CHR ''$'' \<and> takeWhile isDigitOrComma t \<noteq> []
          \<and> matchAtoms [Lit (CHR ''.''), Digit, Digit] (dropWhile isDigitOrComma t) = Some [])"

definition wellFormedRecord :: "string \<times> string \<times> string \<Rightarrow> bool" where
  "wellFormedRecord r = (case r of (d, t, a) \<Rightarrow> isDate d \<and> isMiddleText t \<and> isAmount a)"

definition blobOf :: "(string \<times> string \<times> string) list \<Rightarrow> string" where
  "blobOf rs = concat (map (\<lambda>(d, t, a). d @ t @ a) rs)"

text \<open>What may follow a match: the look-ahead \<open>(?=\d{4}|$)\<close>.\<close>

definition followable :: "string \<Rightarrow> bool" where
  "followable rest = (matchAtoms [Digit, Digit, Digit, Digit] rest \<noteq> None \<or> rest = [])"

text \<open>The transactions the loop is to build from the records, numbered from \<open>n\<close>.\<close>

fun expectedTransactions :: "nat \<Rightarrow> (string \<times> string \<times> string) list \<Rightarrow> Transaction list" where
  "expectedTransactions n [] = []"
| "expectedTransactions n ((d, t, a) # rs) = mkTransaction n d t a # expectedTransactions (Suc n) rs"

section \<open>Investigations\<close>

record Investigation =
  inv_id :: string
  inv_date :: string
  inv_status :: string
  investigator :: string
  summary :: string

text \<open>
  The pattern \<open>/(INV-\d{4}-\d{3})(\d{4}-\d{2}-\d{2})(closed|open)/gi\<close> at one position.
  Every piece has a fixed width and the alternatives of the third group are tried in
  their order, so nothing is given back.
\<close>

definition invIdPattern :: "atom list" where
  "invIdPattern =
     [LitI (CHR ''I''), LitI (CHR ''N''), LitI (CHR ''V''), Lit (CHR ''-''),
      Digit, Digit, Digit, Digit, Lit (CHR ''-''), Digit, Digit, Digit]"

definition matchStatus :: "string \<Rightarrow> (string \<times> string) option" where
  "matchStatus s =
     (case matchAtoms (map LitI ''closed'') s of
        Some r \<Rightarrow> Some (take 6 s, r)
      | None \<Rightarrow>
          (case matchAtoms (map LitI ''open'') s of
             Some r \<Rightarrow> Some (take 4 s, r)
           | None \<Rightarrow> None))"

definition matchInvestigation :: "string \<Rightarrow> (string \<times> string \<times> string \<times> string) option" where
  "matchInvestigation s =
     (case matchAtoms invIdPattern s of
        None \<Rightarrow> None
      | Some r1 \<Rightarrow>
          (case matchAtoms datePattern r1 of
             None \<Rightarrow> None
           | Some r2 \<Rightarrow>
               (case matchStatus r2 of
                  None \<Rightarrow> None
                | Some (st, rest) \<Rightarrow> Some (take 12 s, take 10 r1, st, rest))))"

text \<open>\<open>/(?=[A-Z][a-z])|alerts|checks/\<close>\<close>

definition titleSeparator :: "string \<Rightarrow> nat option" where
  "titleSeparator s =
     (if (case s of a # b # r \<Rightarrow> isUpper a \<and> isLower b | _ \<Rightarrow> False) then Some 0
      else if startsWith s ''alerts'' then Some 6
      else if startsWith s ''checks'' then Some 6
      else None)"

text \<open>
  \<open>.replace(/^(Past Investigations|History of compliance|checks and|alerts)/gi, '')\<close>:
  the pattern is anchored at the start, so it matches once at most, and the first
  alternative that matches there is the one removed.
\<close>

fun stripFirst :: "string list \<Rightarrow> string \<Rightarrow> string" where
  "stripFirst [] s = s"
| "stripFirst (k # ks) s =
     (case matchAtoms (map LitI k) s of
        Some r \<Rightarrow> r
      | None \<Rightarrow> stripFirst ks s)"

definition removeNoise :: "string \<Rightarrow> string" where
  "removeNoise title =
     stripFirst [''Past Investigations'', ''History of compliance'', ''checks and'', ''alerts''] title"

text \<open>\<open>status.charAt(0).toUpperCase() + status.slice(1).toLowerCase()\<close>\<close>

definition normalizeStatus :: "string \<Rightarrow> string" where
  "normalizeStatus status = toUpperCase (take 1 status) @ toLowerCase (drop 1 status)"

text \<open>The body of the loop; \<open>textBeforeMatch\<close> is the container text up to the match.\<close>

definition mkInvestigation :: "string \<Rightarrow> string \<Rightarrow> string \<Rightarrow> string \<Rightarrow> Investigation" where
  "mkInvestigation textBeforeMatch invId date status =
     (let titleCandidates = jsSplit titleSeparator textBeforeMatch;
          lastCandidate = (case titleCandidates of [] \<Rightarrow> [] | _ \<Rightarrow> trim (last titleCandidates));
          title = (if lastCandidate \<noteq> [] then lastCandidate else ''Investigation'');
          cleaned = trim (removeNoise title);
          cleanTitle = (if cleaned \<noteq> [] then cleaned else ''Compliance Investigation'')
      in \<lparr> inv_id = invId,
           inv_date = date,
           inv_status = normalizeStatus status,
           investigator = ''Compliance Officer'',
           summary = cleanTitle \<rparr>)"

lemma matchStatus_length: "matchStatus s = Some (st, r) \<Longrightarrow> length r < length s"
  by (auto simp: matchStatus_def split: option.splits dest!: matchAtoms_length)

lemma matchInvestigation_length:
  "matchInvestigation s = Some (i, d, st, r) \<Longrightarrow> length r < length s"
  by (auto simp: matchInvestigation_def split: option.splits
           dest!: matchAtoms_length matchStatus_length)

text \<open>
  The loop over the matches: \<open>seen\<close> is the container text up to the position of the
  search, \<open>acc\<close> the array \<open>investigations\<close>.
\<close>

function scanInvestigations :: "Investigation list \<Rightarrow> string \<Rightarrow> string \<Rightarrow> Investigation list" where
  "scanInvestigations acc seen [] = acc"
| "scanInvestigations acc seen (c # cs) =
     (case matchInvestigation (c # cs) of
        None \<Rightarrow> scanInvestigations acc (seen @ [c]) cs
      | Some (invId, date, status, rest) \<Rightarrow>
          scanInvestigations (acc @ [mkInvestigation seen invId date status])
            (seen @ invId @ date @ status) rest)"
  by pat_completeness auto
termination
  by (relation "measure (\<lambda>(acc, seen, s). length s)")
     (auto dest!: matchInvestigation_length)

definition parseInvestigations :: "string \<Rightarrow> Investigation list" where
  "parseInvestigations blob = scanInvestigations [] [] blob"

definition extractInvestigations :: "Page option \<Rightarrow> Investigation list" where
  "extractInvestigations page =
     (case page of
        None \<Rightarrow> []
      | Some pg \<Rightarrow>
          if isVisible pg (headingSelector ''Past Investigations'') then
            (case containerText pg (headingSelector ''Past Investigations'') of
               Inl err \<Rightarrow> []
             | Inr t \<Rightarrow> parseInvestigations (case t of None \<Rightarrow> [] | Some s \<Rightarrow> s))
          else [])"

section \<open>Customer record assembler\<close>

record PersonalInfo =
  name :: string
  dateOfBirth :: string
  address :: string
  customerId :: "string option"
  email :: "string option"
  phone :: "string option"
  profession :: "string option"

record CustomerData =
  personalInfo :: PersonalInfo
  riskLevel :: string
  transactions :: "Transaction list"
  investigations :: "Investigation list"

text \<open>
  The state of the service that the extraction touches: the page handle (\<open>None\<close> before
  \<open>initialize\<close> and after \<open>cleanup\<close>) and the screenshots written so far. A screenshot
  that cannot be written is logged and dropped by \<open>captureScreenshot\<close> itself.
\<close>

record Service =
  page :: "Page option"
  screenshots :: "string list"

definition captureScreenshot :: "Service \<Rightarrow> string \<Rightarrow> Service" where
  "captureScreenshot s shot =
     (case page s of
        None \<Rightarrow> s
      | Some pg \<Rightarrow> s\<lparr>screenshots := screenshots s @ [shot]\<rparr>)"

text \<open>\<open>Inl\<close> is the message of the error thrown.\<close>

definition extractPersonalInfo :: "Page option \<Rightarrow> string + PersonalInfo" where
  "extractPersonalInfo pageHandle =
     (case pageHandle of
        None \<Rightarrow> Inl ''Page not available''
      | Some pg \<Rightarrow>
          Inr \<lparr> name = (case nameText pg of None \<Rightarrow> [] | Some t \<Rightarrow> t),
                dateOfBirth = extractFieldValue pageHandle [''Date of Birth'', ''DOB'', ''Birth Date'', ''dob''],
                address = extractFieldValue pageHandle [''Address'', ''Location'', ''Residence''],
                customerId = Some (extractFieldValue pageHandle [''Customer ID'', ''ID'', ''Account Number'']),
                email = Some (extractFieldValue pageHandle [''Email'', ''E-mail'']),
                phone = Some (extractFieldValue pageHandle [''Phone'', ''Telephone'', ''Mobile'']),
                profession = None \<rparr>)"

definition extractCustomerData :: "Service \<Rightarrow> (string + CustomerData) \<times> Service" where
  "extractCustomerData s =
     (case page s of
        None \<Rightarrow> (Inl ''Browser not initialized'', s)
      | Some pg \<Rightarrow>
          (let s1 = captureScreenshot s ''customer-profile''
           in case extractPersonalInfo (page s1) of
                Inl err \<Rightarrow>
                  (Inl (''Data extraction failed: Error: '' @ err),
                   captureScreenshot s1 ''extraction-error'')
              | Inr info \<Rightarrow>
                  (Inr \<lparr> personalInfo = info,
                         riskLevel = extractRiskLevel (page s1),
                         transactions = extractTransactions (page s1),
                         investigations = extractInvestigations (page s1) \<rparr>,
                   s1)))"

section \<open>Reports\<close>

record TransactionsSummary =
  ts_total :: int
  ts_flagged :: int
  ts_totalAmount :: string

record InvestigationHistory =
  ih_total :: int
  ih_recent :: "Investigation list"

record InternalDataSection =
  customerProfile :: PersonalInfo
  overviewRiskLevel :: string
  transactionsSummary :: TransactionsSummary
  investigationHistory :: InvestigationHistory

record ExternalResearchSection =
  backgroundCheck :: string
  counterpartyAnalysis :: string
  publicRecords :: string
  newsAndMedia :: string
  additionalFindings :: string

record RiskAssessmentSection =
  overallRiskScore :: string
  riskFactors :: "string list"
  mitigatingFactors :: "string list"
  complianceFlags :: "string list"

record ComplianceReport =
  executiveSummary :: string
  internalDataOverview :: InternalDataSection
  externalResearchFindings :: ExternalResearchSection
  riskAssessment :: RiskAssessmentSection
  recommendedActions :: "string list"
  generatedAt :: string
  reportCustomerName :: string

text \<open>
  \<open>generateNotFoundReport\<close>; \<open>now\<close> is the value of \<open>new Date().toISOString()\<close> at the
  call.
\<close>

definition generateNotFoundReport :: "string \<Rightarrow> string \<Rightarrow> string \<Rightarrow> ComplianceReport" where
  "generateNotFoundReport customerName err now =
     \<lparr> executiveSummary = ''Investigation for '' @ customerName @ '' could not be completed. '' @ err,
       internalDataOverview =
         \<lparr> customerProfile =
             \<lparr> name = customerName, dateOfBirth = ''N/A'', address = ''N/A'',
               customerId = None, email = None, phone = None, profession = None \<rparr>,
           overviewRiskLevel = ''Unknown'',
           transactionsSummary = \<lparr> ts_total = 0, ts_flagged = 0, ts_totalAmount = ''$0.00'' \<rparr>,
           investigationHistory = \<lparr> ih_total = 0, ih_recent = [] \<rparr> \<rparr>,
       externalResearchFindings =
         \<lparr> backgroundCheck = ''Customer not found in ComplianceOS database.'',
           counterpartyAnalysis = ''N/A'',
           publicRecords = ''N/A'',
           newsAndMedia = ''N/A'',
           additionalFindings = ''No data available for analysis.'' \<rparr>,
       riskAssessment =
         \<lparr> overallRiskScore = ''Unknown'',
           riskFactors = [''Customer not found in system''],
           mitigatingFactors = [],
           complianceFlags = [] \<rparr>,
       recommendedActions =
         [ ''Verify customer name spelling and try again'',
           ''Check if customer exists in ComplianceOS database'',
           ''Contact system administrator if customer should exist'' ],
       generatedAt = now,
       reportCustomerName = customerName \<rparr>"

section \<open>Agents and orchestrator\<close>

record BrowserAgentResult =
  b_success :: bool
  b_data :: "CustomerData option"
  b_error :: "string option"

record ResearchAgentResult =
  r_success :: bool
  r_report :: "ComplianceReport option"
  r_error :: "string option"

record OrchestrationResult =
  success :: bool
  report :: "ComplianceReport option"
  reportPath :: "string option"
  error :: "string option"
  duration :: int

text \<open>
  The collaborators of one investigation, outside the extraction core: what the browser
  engine does at \<open>initialize\<close>, \<open>login\<close> and \<open>searchCustomer\<close> (\<open>Some m\<close> and \<open>Inl m\<close>: the
  method throws an error with message \<open>m\<close>), the page the search ends on, the language
  model behind \<open>generateComplianceReport\<close>, the file system behind \<open>saveReport\<close> (the path
  written, or the message of the error thrown), and the clock.
\<close>

record World =
  w_initialize :: "string option"
  w_login :: "string option"
  w_search :: "string \<Rightarrow> string + bool"
  w_page :: Page
  w_generate :: "CustomerData \<Rightarrow> string + ComplianceReport"
  w_save :: "ComplianceReport \<Rightarrow> string + string"
  w_startTime :: int
  w_endTime :: int
  w_isoTime :: string

text \<open>The calls made to the collaborators that the claims speak of, in their order.\<close>

datatype event = Research CustomerData | Save ComplianceReport

definition browserFailure :: "string \<Rightarrow> BrowserAgentResult" where
  "browserFailure message = \<lparr> b_success = False, b_data = None, b_error = Some message \<rparr>"

text \<open>\<open>BrowserAgent.execute\<close>: every error thrown on the way is caught and reported in the result.\<close>

definition execute :: "World \<Rightarrow> string \<Rightarrow> BrowserAgentResult" where
  "execute w customerName =
     (case w_initialize w of
        Some m \<Rightarrow> browserFailure m
      | None \<Rightarrow>
          (case w_login w of
             Some m \<Rightarrow> browserFailure m
           | None \<Rightarrow>
               (case w_search w customerName of
                  Inl m \<Rightarrow> browserFailure m
                | Inr found \<Rightarrow>
                    if \<not> found then
                      browserFailure (''Customer '' @ dq @ customerName @ dq @ '' not found in ComplianceOS'')
                    else
                      (case fst (extractCustomerData \<lparr> page = Some (w_page w), screenshots = [] \<rparr>) of
                         Inl m \<Rightarrow> browserFailure m
                       | Inr customerData \<Rightarrow>
                           \<lparr> b_success = True, b_data = Some customerData, b_error = None \<rparr>))))"

text \<open>\<open>ResearchAgent.execute\<close>\<close>

definition researchExecute :: "World \<Rightarrow> CustomerData \<Rightarrow> ResearchAgentResult" where
  "researchExecute w customerData =
     (case w_generate w customerData of
        Inl m \<Rightarrow> \<lparr> r_success = False, r_report = None, r_error = Some m \<rparr>
      | Inr rep \<Rightarrow> \<lparr> r_success = True, r_report = Some rep, r_error = None \<rparr>)"

text \<open>\<open>x || d\<close> for an optional text: \<open>undefined\<close> and the empty text give the default.\<close>

definition orElse :: "string option \<Rightarrow> string \<Rightarrow> string" where
  "orElse x d = (case x of None \<Rightarrow> d | Some t \<Rightarrow> if t = [] then d else t)"

definition failed :: "World \<Rightarrow> string \<Rightarrow> OrchestrationResult" where
  "failed w message =
     \<lparr> success = False, report = None, reportPath = None, error = Some message,
       duration = w_endTime w - w_startTime w \<rparr>"

definition succeeded :: "World \<Rightarrow> ComplianceReport \<Rightarrow> string \<Rightarrow> OrchestrationResult" where
  "succeeded w rep path =
     \<lparr> success = True, report = Some rep, reportPath = Some path, error = None,
       duration = w_endTime w - w_startTime w \<rparr>"

text \<open>
  \<open>Orchestrator.investigate\<close> after phase 1, given the result of the browser agent: the
  result returned and the calls made. An error thrown by \<open>saveReport\<close> reaches the
  \<open>catch\<close> of \<open>investigate\<close>.
\<close>

definition investigateFrom :: "World \<Rightarrow> string \<Rightarrow> BrowserAgentResult \<Rightarrow> OrchestrationResult \<times> event list" where
  "investigateFrom w customerName browserResult =
     (if \<not> b_success browserResult \<or> b_data browserResult = None then
        (let notFoundReport =
               generateNotFoundReport customerName
                 (orElse (b_error browserResult) ''Customer not found'') (w_isoTime w)
         in case w_save w notFoundReport of
              Inl m \<Rightarrow> (failed w m, [Save notFoundReport])
            | Inr path \<Rightarrow> (succeeded w notFoundReport path, [Save notFoundReport]))
      else
        (let customerData = the (b_data browserResult);
             researchResult = researchExecute w customerData
         in if \<not> r_success researchResult \<or> r_report researchResult = None then
              (failed w (orElse (r_error researchResult) ''Failed to generate compliance report''),
               [Research customerData])
            else
              (case w_save w (the (r_report researchResult)) of
                 Inl m \<Rightarrow>
                   (failed w m, [Research customerData, Save (the (r_report researchResult))])
               | Inr path \<Rightarrow>
                   (succeeded w (the (r_report researchResult)) path,
                    [Research customerData, Save (the (r_report researchResult))]))))"

definition investigate :: "World \<Rightarrow> string \<Rightarrow> OrchestrationResult \<times> event list" where
  "investigate w customerName = investigateFrom w customerName (execute w customerName)"

definition researchCalls :: "event list \<Rightarrow> nat" where
  "researchCalls evs = length (filter (\<lambda>e. case e of Research d \<Rightarrow> True | Save r \<Rightarrow> False) evs)"

section \<open>Text in the words of the specification\<close>

text \<open>
  Two code units are the same letter when they are equal or one is the upper-case form
  of the other; a text contains a keyword case-insensitively when a run of it is the
  keyword letter for letter.
\<close>

definition sameLetter :: "char \<Rightarrow> char \<Rightarrow> bool" where
  "sameLetter c k =
     (c = k
      \<or> (c, k) \<in> set (zip ''ABCDEFGHIJKLMNOPQRSTUVWXYZ'' ''abcdefghijklmnopqrstuvwxyz'')
      \<or> (k, c) \<in> set (zip ''ABCDEFGHIJKLMNOPQRSTUVWXYZ'' ''abcdefghijklmnopqrstuvwxyz''))"

definition containsCI :: "string \<Rightarrow> string \<Rightarrow> bool" where
  "containsCI t k = (\<exists>a m b. t = a @ m @ b \<and> list_all2 sameLetter m k)"

text \<open>
  A text is trimmed when it has no white space at either end; \<open>r\<close> is the trimmed form of
  \<open>s\<close> when it is trimmed and \<open>s\<close> is \<open>r\<close> between two runs of white space.
\<close>

definition trimmed :: "string \<Rightarrow> bool" where
  "trimmed s = (s = [] \<or> (\<not> isSpace (hd s) \<and> \<not> isSpace (last s)))"

definition isTrimOf :: "string \<Rightarrow> string \<Rightarrow> bool" where
  "isTrimOf r s = (trimmed r \<and> (\<exists>a b. s = a @ r @ b \<and> list_all isSpace a \<and> list_all isSpace b))"

text \<open>
  The status of an investigation is the capitalised form of a token when the token is
  \<open>closed\<close> or \<open>open\<close> in any case of its letters and the status is that word with its
  first letter in upper case and the others in lower case.
\<close>

definition capitalisedToken :: "string \<Rightarrow> string \<Rightarrow> bool" where
  "capitalisedToken st status =
     ((list_all2 sameLetter st ''closed'' \<and> status = ''Closed'')
      \<or> (list_all2 sameLetter st ''open'' \<and> status = ''Open''))"

text \<open>
  An investigation comes from a match in a container text when the text has, after
  some \<open>seen\<close>, an identifier, a date and a status token at which the investigation
  pattern matches with these three groups, the investigation carries the identifier and
  the date as they stand, and its status is the capitalised form of the token.
\<close>

definition fromMatch :: "string \<Rightarrow> Investigation \<Rightarrow> bool" where
  "fromMatch blob found =
     (\<exists>seen i d st rest.
        blob = seen @ i @ d @ st @ rest
        \<and> matchInvestigation (i @ d @ st @ rest) = Some (i, d, st, rest)
        \<and> inv_id found = i \<and> inv_date found = d
        \<and> capitalisedToken st (inv_status found))"

section \<open>The field locator in the words of the specification\<close>

text \<open>
  The field locator as the specification describes it: the values read by all
  combinations of a label, a lookup strategy and a position, in the fixed order (labels
  in their order, for each label the four strategies, for each visible match the next
  sibling and then the parent's next sibling), and the first of them that is not empty.
\<close>

definition positions :: "Page \<Rightarrow> string \<Rightarrow> string option list" where
  "positions pg p = (if isVisible pg p then [siblingText pg p, parentSiblingText pg p] else [])"

definition combinations :: "Page \<Rightarrow> string list \<Rightarrow> string option list" where
  "combinations pg labels = concat (map (\<lambda>l. concat (map (positions pg) (patterns l))) labels)"

definition firstValue :: "Page \<Rightarrow> string list \<Rightarrow> string option" where
  "firstValue pg labels = (case filter truthy (combinations pg labels) of [] \<Rightarrow> None | v # vs \<Rightarrow> v)"

definition riskLabels :: "string list" where
  "riskLabels = [''Risk Level'', ''Risk'', ''Risk Score'', ''Risk Rating'']"

section \<open>Sample inputs\<close>

definition emptyPage :: Page where
  "emptyPage =
     \<lparr> nameText = None,
       isVisible = (\<lambda>sel. False),
       siblingText = (\<lambda>sel. None),
       parentSiblingText = (\<lambda>sel. None),
       containerText = (\<lambda>sel. Inr None) \<rparr>"

text \<open>A page that shows one section, with the given text in its container.\<close>

definition sectionPage :: "string \<Rightarrow> string \<Rightarrow> Page" where
  "sectionPage heading blob =
     emptyPage\<lparr> isVisible := (\<lambda>sel. sel = headingSelector heading),
                containerText := (\<lambda>sel. Inr (Some blob)) \<rparr>"

text \<open>A page that shows one label, with the given text in the next sibling of the label.\<close>

definition labelPage :: "string \<Rightarrow> string \<Rightarrow> Page" where
  "labelPage label v =
     emptyPage\<lparr> isVisible := (\<lambda>sel. sel = hd (patterns label)),
                siblingText := (\<lambda>sel. Some v) \<rparr>"

text \<open>
  A page with two e-mail labels: the value beside the first is a single space, the value
  beside the second an address.
\<close>

definition paddedPage :: Page where
  "paddedPage =
     emptyPage\<lparr> isVisible := (\<lambda>sel. sel = hd (patterns ''Email'') \<or> sel = hd (patterns ''E-mail'')),
                siblingText := (\<lambda>sel. if sel = hd (patterns ''Email'') then Some '' ''
                                      else Some ''jane@example.com'') \<rparr>"

text \<open>A customer profile with a risk card, a transaction card and an investigation card.\<close>

definition profilePage :: Page where
  "profilePage =
     \<lparr> nameText = Some ''Jane Doe'',
       isVisible = (\<lambda>sel. sel = hd (patterns ''Risk Level'')
                         \<or> sel = headingSelector ''Recent Transactions''
                         \<or> sel = headingSelector ''Past Investigations''),
       siblingText = (\<lambda>sel. Some ''Current Levelmedium RiskLast assessment...''),
       parentSiblingText = (\<lambda>sel. None),
       containerText = (\<lambda>sel.
          if sel = headingSelector ''Recent Transactions'' then
            Inr (Some ''Recent Transactions2024-01-15Best BuyElectronics$4500.002024-01-16Crypto ExchangeTransfer$12,500.00'')
          else
            Inr (Some ''Past InvestigationsHistory of compliance checks and alertsUnusual transaction volumeINV-2023-0012023-11-15closed'')) \<rparr>"

definition sampleRecords :: "(string \<times> string \<times> string) list" where
  "sampleRecords =
     [ (''2024-01-15'', ''Best BuyElectronics'', ''$4500.00''),
       (''2024-01-16'', ''Crypto ExchangeTransfer'', ''$12,500.00'') ]"

text \<open>
  A run in which the browser starts, the login succeeds, the search finds Jane Doe only,
  the language model is out of reach and reports can be written.
\<close>

definition sampleWorld :: World where
  "sampleWorld =
     \<lparr> w_initialize = None,
       w_login = None,
       w_search = (\<lambda>customerName. Inr (customerName = ''Jane Doe'')),
       w_page = profilePage,
       w_generate = (\<lambda>customerData. Inl ''Connection error.''),
       w_save = (\<lambda>rep. Inr ''reports/compliance_report.md''),
       w_startTime = 1000,
       w_endTime = 2500,
       w_isoTime = ''2024-02-01T09:00:00.000Z'' \<rparr>"

text \<open>A run in which the search reports a match and the page it ends on shows nothing.\<close>

definition blankWorld :: World where
  "blankWorld = sampleWorld\<lparr> w_search := (\<lambda>customerName. Inr True), w_page := emptyPage \<rparr>"

text \<open>A run in which the reports cannot be written.\<close>

definition readOnlyWorld :: World where
  "readOnlyWorld = sampleWorld\<lparr> w_save := (\<lambda>rep. Inl ''Failed to save report: Error: EACCES'') \<rparr>"

section \<open>Properties of the text operations\<close>

lemma lower_char_iff:
  "isLower k \<Longrightarrow> (toLowerChar c = k) = sameLetter c k"
  unfolding isLower_def
  by (simp, elim disjE) (auto simp: toLowerChar_def sameLetter_def)

lemma lower_map_iff:
  "list_all isLower k \<Longrightarrow> (map toLowerChar m = k) = list_all2 sameLetter m k"
proof (induction m arbitrary: k)
  case Nil
  then show ?case by auto
next
  case (Cons c m)
  then show ?case
    by (cases k) (auto simp: lower_char_iff)
qed

lemma startsWith_iff: "startsWith s k = (\<exists>b. s = k @ b)"
  by (induction s k rule: startsWith.induct) auto

lemma includesStr_iff: "includesStr s k = (\<exists>a b. s = a @ k @ b)"
proof (induction s)
  case Nil
  then show ?case by auto
next
  case (Cons c cs)
  show ?case
  proof
    assume "includesStr (c # cs) k"
    then consider "startsWith (c # cs) k" | "includesStr cs k" by auto
    then show "\<exists>a b. c # cs = a @ k @ b"
    proof cases
      case 1
      then obtain b where "c # cs = k @ b" using startsWith_iff by blast
      then have "c # cs = [] @ k @ b" by simp
      then show ?thesis by blast
    next
      case 2
      then obtain a b where "cs = a @ k @ b" using Cons.IH by blast
      then have "c # cs = (c # a) @ k @ b" by simp
      then show ?thesis by blast
    qed
  next
    assume "\<exists>a b. c # cs = a @ k @ b"
    then obtain a b where e: "c # cs = a @ k @ b" by blast
    show "includesStr (c # cs) k"
    proof (cases a)
      case Nil
      then have "startsWith (c # cs) k" using e startsWith_iff by auto
      then show ?thesis by simp
    next
      case (Cons x a')
      then have "cs = a' @ k @ b" using e by simp
      then have "includesStr cs k" using Cons.IH by blast
      then show ?thesis by simp
    qed
  qed
qed

lemma includes_lower_map_iff:
  assumes "list_all isLower k"
  shows "includesStr (map toLowerChar t) k = containsCI t k"
proof
  assume "includesStr (map toLowerChar t) k"
  then obtain a b where "map toLowerChar t = a @ (k @ b)"
    unfolding includesStr_iff by blast
  then have "\<exists>t1 t2. t = t1 @ t2 \<and> a = map toLowerChar t1 \<and> k @ b = map toLowerChar t2"
    by (simp only: map_eq_append_conv)
  then obtain t1 t2 where t: "t = t1 @ t2" and m2: "map toLowerChar t2 = k @ b"
    by auto
  from m2 have "\<exists>m t3. t2 = m @ t3 \<and> k = map toLowerChar m \<and> b = map toLowerChar t3"
    by (simp only: map_eq_append_conv)
  then obtain m t3 where t2: "t2 = m @ t3" and m: "map toLowerChar m = k"
    by auto
  have "list_all2 sameLetter m k"
    using m by (simp add: lower_map_iff [OF assms])
  then have "t = t1 @ m @ t3 \<and> list_all2 sameLetter m k"
    by (simp add: t t2)
  then show "containsCI t k"
    unfolding containsCI_def by (intro exI)
next
  assume "containsCI t k"
  then obtain a m b where t: "t = a @ m @ b" and l: "list_all2 sameLetter m k"
    unfolding containsCI_def by (elim exE conjE)
  have "map toLowerChar m = k"
    using l by (simp add: lower_map_iff [OF assms])
  then have "map toLowerChar t = map toLowerChar a @ k @ map toLowerChar b"
    by (simp add: t)
  then show "includesStr (map toLowerChar t) k"
    unfolding includesStr_iff by (intro exI)
qed

lemma includes_lower_iff:
  "list_all isLower k \<Longrightarrow> includesStr (toLowerCase t) k = containsCI t k"
  unfolding toLowerCase_def by (rule includes_lower_map_iff)

lemma dropWhile_end_shape:
  "\<exists>b. d = rev (dropWhile P (rev d)) @ b \<and> list_all P b"
proof -
  have "rev d = takeWhile P (rev d) @ dropWhile P (rev d)" by simp
  then have "d = rev (dropWhile P (rev d)) @ rev (takeWhile P (rev d))"
    by (metis rev_append rev_rev_ident)
  moreover have "list_all P (rev (takeWhile P (rev d)))"
    by (auto simp: list_all_iff dest: set_takeWhileD)
  ultimately show ?thesis by blast
qed

lemma strip_isTrimOf: "isTrimOf (rev (dropWhile isSpace (rev (dropWhile isSpace s)))) s"
proof -
  define d where "d = dropWhile isSpace s"
  define e where "e = dropWhile isSpace (rev d)"
  have r: "rev (dropWhile isSpace (rev (dropWhile isSpace s))) = rev e" by (simp add: d_def e_def)
  have s: "s = takeWhile isSpace s @ d" by (simp add: d_def)
  have a: "list_all isSpace (takeWhile isSpace s)"
    by (auto simp: list_all_iff dest: set_takeWhileD)
  obtain b where b: "d = rev e @ b" "list_all isSpace b"
    using dropWhile_end_shape [of d isSpace] unfolding e_def by blast
  have "trimmed (rev e)"
  proof (cases "e = []")
    case True
    then show ?thesis by (simp add: trimmed_def)
  next
    case False
    then have l: "\<not> isSpace (hd e)" unfolding e_def by (rule hd_dropWhile)
    have "d \<noteq> []" using False e_def by auto
    then have "\<not> isSpace (hd d)" unfolding d_def by (rule hd_dropWhile)
    moreover have "hd d = hd (rev e)" using b(1) False by (metis hd_append2 rev_is_Nil_conv)
    ultimately show ?thesis using l False by (simp add: trimmed_def last_rev)
  qed
  moreover have "s = takeWhile isSpace s @ rev e @ b" using s b(1) by simp
  ultimately show ?thesis
    unfolding isTrimOf_def r using a b(2) by blast
qed

lemma trim_isTrimOf: "isTrimOf (trim s) s"
  unfolding trim_def by (rule strip_isTrimOf)

lemma trimmed_trim: "trimmed (trim s)"
  using trim_isTrimOf [of s] by (simp add: isTrimOf_def)

lemma strip_trimmed: "trimmed s \<Longrightarrow> rev (dropWhile isSpace (rev (dropWhile isSpace s))) = s"
proof (cases "s = []")
  case True
  then show ?thesis by simp
next
  case False
  assume "trimmed s"
  then have h: "\<not> isSpace (hd s)" and l: "\<not> isSpace (last s)"
    using False by (simp_all add: trimmed_def)
  have "dropWhile isSpace s = s" using h False by (cases s) auto
  moreover have "dropWhile isSpace (rev s) = rev s"
    using l False by (cases "rev s") (auto simp: last_rev [symmetric] hd_rev)
  ultimately show ?thesis by simp
qed

lemma trim_trimmed: "trimmed s \<Longrightarrow> trim s = s"
  unfolding trim_def by (rule strip_trimmed)

section \<open>Properties of the transaction parser\<close>

lemma no_crypto_in_Unknown: "\<not> includesStr (toLowerCase ''Unknown'') ''crypto''"
  by (simp add: toLowerCase_def toLowerChar_def)

lemma mkTransaction_flagged:
  "flagged (mkTransaction n d mc a) =
     (includesStr (toLowerCase (counterparty (mkTransaction n d mc a))) ''crypto''
      \<or> exceeds (numericAmount (tx_amount (mkTransaction n d mc a))) 10000)"
proof -
  have e: "\<not> includesStr (toLowerCase []) ''crypto''"
    by (simp add: toLowerCase_def)
  show ?thesis
    using no_crypto_in_Unknown e by (simp add: mkTransaction_def Let_def)
qed


lemma matchAtoms_append:
  "matchAtoms ps d = Some r0 \<Longrightarrow> matchAtoms ps (d @ r) = Some (r0 @ r)"
  by (induction ps d rule: matchAtoms.induct) (auto split: if_splits)

lemma matchAtoms_prefix:
  "matchAtoms (ps @ qs) s = Some r \<Longrightarrow> \<exists>r'. matchAtoms ps s = Some r'"
  by (induction ps s rule: matchAtoms.induct) (auto split: if_splits)

lemma isDate_length: "isDate d \<Longrightarrow> length d = 10"
  by (auto simp: isDate_def datePattern_def dest: matchAtoms_length)

lemma isDate_year: "isDate d \<Longrightarrow> matchAtoms [Digit, Digit, Digit, Digit] (d @ x) \<noteq> None"
proof -
  assume "isDate d"
  then have "matchAtoms ([Digit, Digit, Digit, Digit] @ [Lit (CHR ''-''), Digit, Digit, Lit (CHR ''-''), Digit, Digit]) d = Some []"
    by (simp add: isDate_def datePattern_def)
  then obtain r' where "matchAtoms [Digit, Digit, Digit, Digit] d = Some r'"
    using matchAtoms_prefix by blast
  then show ?thesis
    by (simp add: matchAtoms_append)
qed


lemma amountTail_ok:
  "matchAtoms [Lit (CHR ''.''), Digit, Digit] u = Some [] \<Longrightarrow> followable rest \<Longrightarrow> amountTail (u @ rest) = Some rest"
  by (auto simp: amountTail_def followable_def matchAtoms_append)

lemma matchAmount_ok:
  assumes "isAmount a" "followable rest"
  shows "matchAmount (a @ rest) = Some (a, rest)"
proof -
  from assms(1) obtain t where a: "a = CHR ''$'' # t"
    and body: "takeWhile isDigitOrComma t \<noteq> []"
    and tail: "matchAtoms [Lit (CHR ''.''), Digit, Digit] (dropWhile isDigitOrComma t) = Some []"
    by (auto simp: isAmount_def split: list.splits)
  define b where "b = takeWhile isDigitOrComma t"
  define u where "u = dropWhile isDigitOrComma t"
  have t: "t = b @ u" by (simp add: b_def u_def)
  have lu: "length u = 3" using matchAtoms_length[OF tail] by (simp add: u_def)
  have tail': "matchAtoms [Lit (CHR ''.''), Digit, Digit] u = Some []"
    using tail by (simp add: u_def)
  obtain c u' where u: "u = c # u'"
    using lu by (cases u) auto
  have c: "c = CHR ''.''"
    using tail' unfolding u by (simp split: if_splits)
  have nc: "\<not> isDigitOrComma c" by (simp add: c isDigitOrComma_def isDigit_def)
  have allb: "\<And>x. x \<in> set b \<Longrightarrow> isDigitOrComma x"
    unfolding b_def by (rule set_takeWhileD [THEN conjunct2])
  have tw: "takeWhile isDigitOrComma (t @ rest) = b"
    unfolding t u using nc allb by simp
  obtain n where n: "length b = Suc n" using body by (cases b) (auto simp: b_def)
  have "greedyDigits (Suc n) (t @ rest) = Some (t, rest)"
    using amountTail_ok[OF tail' assms(2)] n lu by (simp add: t)
  then show ?thesis
    by (simp add: matchAmount_def a tw[unfolded a] n)
qed

lemma matchAmount_not_dollar: "c \<noteq> CHR ''$'' \<Longrightarrow> matchAmount (c # cs) = None"
  by (simp add: matchAmount_def)

lemma lazyText_ok:
  assumes "isAmount a" "followable rest"
  shows "list_all isTextChar t \<Longrightarrow> lazyText acc (t @ a @ rest) = Some (acc @ t, a, rest)"
proof (induction t arbitrary: acc)
  case Nil
  obtain c cs where "a = c # cs"
    using assms(1) by (cases a) (auto simp: isAmount_def)
  then show ?case
    using matchAmount_ok [OF assms] by simp
next
  case (Cons c t)
  then have "c \<noteq> CHR ''$''" by (simp add: isTextChar_def)
  then show ?case
    using Cons by (simp add: matchAmount_not_dollar)
qed

lemma matchTransaction_ok:
  assumes "wellFormedRecord (d, t, a)" "followable rest"
  shows "matchTransaction (d @ t @ a @ rest) = Some (d, t, a, rest)"
proof -
  from assms(1) have d: "isDate d" and t: "isMiddleText t" and a: "isAmount a"
    by (simp_all add: wellFormedRecord_def)
  obtain c t' where ct: "t = c # t'" and c: "isTextChar c" and t': "list_all isTextChar t'"
    using t by (cases t) (auto simp: isMiddleText_def)
  have "matchAtoms datePattern (d @ t @ a @ rest) = Some (t @ a @ rest)"
    using d matchAtoms_append [of datePattern d "[]"] by (simp add: isDate_def)
  moreover have "lazyText [c] (t' @ a @ rest) = Some (t, a, rest)"
    using lazyText_ok [OF a assms(2) t', of "[c]"] by (simp add: ct)
  ultimately show ?thesis
    using c isDate_length [OF d] by (simp add: matchTransaction_def ct)
qed

lemma blobOf_followable: "list_all wellFormedRecord rs \<Longrightarrow> followable (blobOf rs)"
  by (cases rs) (auto simp: blobOf_def followable_def wellFormedRecord_def isDate_year)

lemma scanTransactions_nonempty:
  "s \<noteq> [] \<Longrightarrow> scanTransactions acc s =
     (case matchTransaction s of
        None \<Rightarrow> scanTransactions acc (tl s)
      | Some (date, mc, amount, rest) \<Rightarrow>
          scanTransactions (acc @ [mkTransaction (length acc) date mc amount]) rest)"
  by (cases s) (auto split: option.splits)

lemma scanTransactions_blob:
  "list_all wellFormedRecord rs \<Longrightarrow>
     scanTransactions acc (blobOf rs) = acc @ expectedTransactions (length acc) rs"
proof (induction rs arbitrary: acc)
  case Nil
  then show ?case by (simp add: blobOf_def)
next
  case (Cons r rs)
  obtain d t a where r: "r = (d, t, a)" by (cases r)
  from Cons.prems have wf: "wellFormedRecord (d, t, a)" and wfs: "list_all wellFormedRecord rs"
    by (simp_all add: r)
  have blob: "blobOf (r # rs) = d @ t @ a @ blobOf rs"
    by (simp add: blobOf_def r)
  have ne: "blobOf (r # rs) \<noteq> []"
    using wf isDate_length [of d] by (auto simp: blob wellFormedRecord_def)
  have m: "matchTransaction (blobOf (r # rs)) = Some (d, t, a, blobOf rs)"
    unfolding blob by (rule matchTransaction_ok [OF wf blobOf_followable [OF wfs]])
  have "scanTransactions acc (blobOf (r # rs)) =
          scanTransactions (acc @ [mkTransaction (length acc) d t a]) (blobOf rs)"
    by (subst scanTransactions_nonempty [OF ne]) (simp add: m)
  then show ?case
    using Cons.IH [OF wfs, of "acc @ [mkTransaction (length acc) d t a]"]
    by (simp add: r)
qed

lemma digit_of_index: "n < 10 \<Longrightarrow> digitVal (''0123456789'' ! n) = int n"
proof -
  assume "n < 10"
  then have "n \<in> {0, 1, 2, 3, 4, 5, 6, 7, 8, 9}" by auto
  then show ?thesis
    by (elim insertE) (simp_all add: digitVal_def)
qed

lemma digitsValue_snoc: "digitsValue (xs @ [c]) = 10 * digitsValue xs + digitVal c"
  by (simp add: digitsValue_def)

lemma digitsValue_showNat: "digitsValue (showNat n) = int n"
proof (induction n rule: showNat.induct)
  case (1 n)
  show ?case
  proof (cases "n < 10")
    case True
    then show ?thesis
      using digit_of_index [OF True] by (subst showNat.simps) (simp add: digitsValue_def)
  next
    case False
    have "n mod 10 < 10" by simp
    then have "digitVal (''0123456789'' ! (n mod 10)) = int (n mod 10)"
      by (rule digit_of_index)
    moreover have "int n = 10 * int (n div 10) + int (n mod 10)"
      by (metis mult_div_mod_eq of_nat_add of_nat_mult of_nat_numeral)
    ultimately show ?thesis
      using False 1 by (subst showNat.simps) (simp add: digitsValue_snoc)
  qed
qed

lemma showNat_inj: "showNat m = showNat n \<Longrightarrow> m = n"
proof -
  assume "showNat m = showNat n"
  then have "digitsValue (showNat m) = digitsValue (showNat n)"
    by (rule arg_cong)
  then show "m = n"
    unfolding digitsValue_showNat by simp
qed

lemma length_expected: "length (expectedTransactions n rs) = length rs"
  by (induction n rs rule: expectedTransactions.induct) auto

lemma nth_expected:
  "i < length rs \<Longrightarrow>
     expectedTransactions n rs ! i = mkTransaction (n + i) (fst (rs ! i)) (fst (snd (rs ! i))) (snd (snd (rs ! i)))"
proof (induction n rs arbitrary: i rule: expectedTransactions.induct)
  case (1 n)
  then show ?case by simp
next
  case (2 n d t a rs)
  then show ?case by (cases i) auto
qed

lemma tx_id_mkTransaction: "tx_id (mkTransaction n d t a) = ''TXN-'' @ showNat (n + 1)"
  by (simp add: mkTransaction_def Let_def)

lemma tx_date_mkTransaction: "tx_date (mkTransaction n d t a) = d"
  by (simp add: mkTransaction_def Let_def)

lemma tx_amount_mkTransaction: "tx_amount (mkTransaction n d t a) = a"
  by (simp add: mkTransaction_def Let_def)

lemma ids_expected:
  "map tx_id (expectedTransactions n rs) = map (\<lambda>i. ''TXN-'' @ showNat (i + 1)) [n ..< n + length rs]"
proof (induction n rs rule: expectedTransactions.induct)
  case (1 n)
  then show ?case by simp
next
  case (2 n d t a rs)
  have "[n ..< n + length ((d, t, a) # rs)] = n # [Suc n ..< Suc n + length rs]"
    by (subst upt_rec) simp
  then show ?case
    using 2 by (simp add: tx_id_mkTransaction)
qed

lemma numbers_expected:
  "map (\<lambda>t. digitsValue (drop 4 (tx_id t))) (expectedTransactions n rs) = map int [n + 1 ..< n + length rs + 1]"
proof -
  have "map (\<lambda>t. digitsValue (drop 4 (tx_id t))) (expectedTransactions n rs)
          = map (digitsValue \<circ> drop 4) (map tx_id (expectedTransactions n rs))"
    by simp
  also have "\<dots> = map (\<lambda>i. int (Suc i)) [n ..< n + length rs]"
    unfolding ids_expected by (simp add: digitsValue_showNat)
  also have "\<dots> = map int (map Suc [n ..< n + length rs])"
    by simp
  also have "\<dots> = map int [n + 1 ..< n + length rs + 1]"
    unfolding map_Suc_upt by simp
  finally show ?thesis .
qed

lemma distinct_ids_expected: "distinct (map tx_id (expectedTransactions n rs))"
  unfolding ids_expected
  by (auto simp: distinct_map intro!: inj_onI dest: showNat_inj)

lemma extractTransactions_blob:
  assumes "list_all wellFormedRecord rs"
    and "isVisible pg (headingSelector ''Recent Transactions'')"
    and "containerText pg (headingSelector ''Recent Transactions'') = Inr (Some (blobOf rs))"
  shows "extractTransactions (Some pg) = expectedTransactions 0 rs"
  using scanTransactions_blob [OF assms(1), of "[]"] assms(2,3)
  by (simp add: extractTransactions_def parseTransactions_def)

lemma take_takeWhile:
  "n \<le> length (takeWhile P xs) \<Longrightarrow> list_all P (take n xs)"
proof -
  assume n: "n \<le> length (takeWhile P xs)"
  have "take n xs = take n (takeWhile P xs @ dropWhile P xs)" by simp
  also have "\<dots> = take n (takeWhile P xs)" using n by (simp del: takeWhile_dropWhile_id)
  finally have "set (take n xs) \<subseteq> set (takeWhile P xs)" by (simp add: set_take_subset)
  then show ?thesis
    by (auto simp: list_all_iff dest: set_takeWhileD)
qed

lemma matchAtoms_Cons:
  "matchAtoms (a # as) s = Some r \<Longrightarrow> \<exists>c cs. s = c # cs \<and> atomMatches a c \<and> matchAtoms as cs = Some r"
  by (cases s) (auto split: if_splits)

lemma amountTail_shape:
  "amountTail u = Some rest \<Longrightarrow>
     \<exists>d1 d2. u = CHR ''.'' # d1 # d2 # rest \<and> isDigit d1 \<and> isDigit d2"
proof -
  assume "amountTail u = Some rest"
  then have "matchAtoms [Lit (CHR ''.''), Digit, Digit] u = Some rest"
    by (auto simp: amountTail_def split: option.splits if_splits)
  then obtain c u1 where "u = c # u1" "c = CHR ''.''" "matchAtoms [Digit, Digit] u1 = Some rest"
    by (auto dest!: matchAtoms_Cons)
  moreover from this obtain d1 u2 where "u1 = d1 # u2" "isDigit d1" "matchAtoms [Digit] u2 = Some rest"
    by (auto dest!: matchAtoms_Cons)
  moreover from this obtain d2 where "u2 = d2 # rest" "isDigit d2"
    by (auto dest!: matchAtoms_Cons)
  ultimately show ?thesis by simp
qed

lemma isAmount_intro:
  assumes "b \<noteq> []" "list_all isDigitOrComma b" "isDigit d1" "isDigit d2"
  shows "isAmount (CHR ''$'' # b @ [CHR ''.'', d1, d2])"
proof -
  have nc: "\<not> isDigitOrComma (CHR ''.'')" by (simp add: isDigitOrComma_def isDigit_def)
  have "takeWhile isDigitOrComma (b @ [CHR ''.'', d1, d2]) = b"
    using assms(2) nc by (simp add: list_all_iff)
  moreover have "dropWhile isDigitOrComma (b @ [CHR ''.'', d1, d2]) = [CHR ''.'', d1, d2]"
    using assms(2) nc by (simp add: list_all_iff)
  ultimately show ?thesis
    using assms by (simp add: isAmount_def)
qed

lemma greedyDigits_isAmount:
  "greedyDigits n t = Some (m, r) \<Longrightarrow> n \<le> length (takeWhile isDigitOrComma t) \<Longrightarrow>
     isAmount (CHR ''$'' # m)"
proof (induction n)
  case 0
  then show ?case by simp
next
  case (Suc n)
  show ?case
  proof (cases "amountTail (drop (Suc n) t)")
    case None
    then show ?thesis using Suc by simp
  next
    case (Some rest)
    then obtain d1 d2 where u: "drop (Suc n) t = CHR ''.'' # d1 # d2 # rest"
      and d: "isDigit d1" "isDigit d2"
      using amountTail_shape by blast
    have "take (Suc n + 3) t = take (Suc n) t @ take 3 (drop (Suc n) t)"
      by (rule take_add)
    then have m: "m = take (Suc n) t @ [CHR ''.'', d1, d2]"
      using Suc.prems(1) Some by (simp add: u)
    have all: "list_all isDigitOrComma (take (Suc n) t)"
      using Suc.prems(2) by (rule take_takeWhile)
    have "length (takeWhile isDigitOrComma t) \<le> length t" by (rule length_takeWhile_le)
    then have ne: "take (Suc n) t \<noteq> []" using Suc.prems(2) by auto
    show ?thesis
      unfolding m by (rule isAmount_intro [OF ne all d])
  qed
qed

lemma matchAmount_isAmount: "matchAmount s = Some (a, r) \<Longrightarrow> isAmount a"
  by (auto simp: matchAmount_def split: list.splits if_splits option.splits
           dest: greedyDigits_isAmount)

lemma parseFloat_two_decimals:
  assumes "list_all isDigit ds" "isDigit d1" "isDigit d2"
  shows "parseFloat (ds @ [CHR ''.'', d1, d2]) = Some (digitsValue (ds @ [d1, d2]), 2)"
proof -
  have np: "\<not> isDigit (CHR ''.'')" by (simp add: isDigit_def)
  have "takeWhile isDigit (ds @ [CHR ''.'', d1, d2]) = ds"
    using assms(1) np by (simp add: list_all_iff)
  moreover have "dropWhile isDigit (ds @ [CHR ''.'', d1, d2]) = [CHR ''.'', d1, d2]"
    using assms(1) np by (simp add: list_all_iff)
  ultimately show ?thesis
    using assms(2,3) by (simp add: parseFloat_def)
qed

lemma isAmount_numericAmount:
  assumes "isAmount a"
  shows "\<exists>m. numericAmount a = Some (m, 2)"
proof -
  from assms obtain t where a: "a = CHR ''$'' # t"
    and tail: "matchAtoms [Lit (CHR ''.''), Digit, Digit] (dropWhile isDigitOrComma t) = Some []"
    by (auto simp: isAmount_def split: list.splits)
  define b where "b = takeWhile isDigitOrComma t"
  from tail obtain c u1 where u: "dropWhile isDigitOrComma t = c # u1" and c: "c = CHR ''.''"
    and t1: "matchAtoms [Digit, Digit] u1 = Some []"
    by (auto dest!: matchAtoms_Cons)
  from t1 obtain d1 u2 where u1: "u1 = d1 # u2" and d1: "isDigit d1" and t2: "matchAtoms [Digit] u2 = Some []"
    by (auto dest!: matchAtoms_Cons)
  from t2 obtain d2 where u2: "u2 = [d2]" and d2: "isDigit d2"
    by (auto dest!: matchAtoms_Cons)
  have t: "t = b @ [CHR ''.'', d1, d2]"
    using takeWhile_dropWhile_id [of isDigitOrComma t] by (simp add: b_def u c u1 u2)
  have keep: "d1 \<noteq> CHR ''$''" "d1 \<noteq> CHR '',''" "d2 \<noteq> CHR ''$''" "d2 \<noteq> CHR '',''"
    using d1 d2 by (auto simp: isDigit_def)
  have f: "filter (\<lambda>c. c \<noteq> CHR ''$'' \<and> c \<noteq> CHR '','') a
             = filter (\<lambda>c. c \<noteq> CHR ''$'' \<and> c \<noteq> CHR '','') b @ [CHR ''.'', d1, d2]"
    using keep by (simp add: a t)
  have "\<And>x. x \<in> set b \<Longrightarrow> isDigitOrComma x"
    unfolding b_def by (rule set_takeWhileD [THEN conjunct2])
  then have "list_all isDigit (filter (\<lambda>c. c \<noteq> CHR ''$'' \<and> c \<noteq> CHR '','') b)"
    by (auto simp: list_all_iff isDigitOrComma_def)
  then show ?thesis
    using parseFloat_two_decimals [OF _ d1 d2] by (simp add: numericAmount_def f)
qed

lemma lazyText_isAmount: "lazyText acc s = Some (t, a, r) \<Longrightarrow> isAmount a"
  by (induction acc s rule: lazyText.induct)
     (auto split: option.splits if_splits dest: matchAmount_isAmount)

lemma matchTransaction_isAmount: "matchTransaction s = Some (d, t, a, r) \<Longrightarrow> isAmount a"
  by (auto simp: matchTransaction_def split: option.splits list.splits if_splits
           dest: lazyText_isAmount)

lemma scanTransactions_all:
  assumes step: "\<And>n d mc a. isAmount a \<Longrightarrow> P (mkTransaction n d mc a)"
  shows "list_all P acc \<Longrightarrow> list_all P (scanTransactions acc s)"
proof (induction acc s rule: scanTransactions.induct)
  case (1 acc)
  then show ?case by simp
next
  case (2 acc c cs)
  show ?case
  proof (cases "matchTransaction (c # cs)")
    case None
    then show ?thesis using 2 by simp
  next
    case (Some m)
    obtain d mc a rest where m: "m = (d, mc, a, rest)" by (cases m)
    have "P (mkTransaction (length acc) d mc a)"
      using Some m matchTransaction_isAmount step by blast
    then have "list_all P (acc @ [mkTransaction (length acc) d mc a])"
      using 2(3) by simp
    then have "list_all P (scanTransactions (acc @ [mkTransaction (length acc) d mc a]) rest)"
      using 2(2) [OF Some m [symmetric] refl refl] by simp
    then show ?thesis
      using Some m by simp
  qed
qed

lemma extractTransactions_all:
  assumes "\<And>n d mc a. isAmount a \<Longrightarrow> P (mkTransaction n d mc a)"
  shows "list_all P (extractTransactions ph)"
  using scanTransactions_all [of P "[]", OF assms]
  by (auto simp: extractTransactions_def parseTransactions_def split: option.splits sum.splits)

text \<open>
  The flag looks at the merchant part of the matched text, which is the counterparty of
  the transaction; the trailing category token is not looked at.
\<close>

lemma category_token_not_flagged:
  "parseTransactions ''2024-01-15Acme Crypto$5.00'' =
     [ \<lparr> tx_id = ''TXN-1'', tx_date = ''2024-01-15'', tx_amount = ''$5.00'',
         counterparty = ''Acme'', tx_type = ''Crypto'', tx_status = ''Completed'',
         flagged = False \<rparr> ]"
  by code_simp

section \<open>Properties of the field locator\<close>

lemma tryPatterns_first:
  "tryPatterns pg ps =
     (case filter truthy (concat (map (positions pg) ps)) of
        [] \<Rightarrow> None
      | v # vs \<Rightarrow> Some (trim (the v)))"
  by (induction ps) (auto simp: positions_def)

lemma tryLabels_first:
  "tryLabels pg labels =
     (case filter truthy (combinations pg labels) of
        [] \<Rightarrow> []
      | v # vs \<Rightarrow> trim (the v))"
proof (induction labels)
  case Nil
  then show ?case by (simp add: combinations_def)
next
  case (Cons l ls)
  show ?case
  proof (cases "filter truthy (concat (map (positions pg) (patterns l)))")
    case Nil
    then show ?thesis
      using Cons by (simp add: combinations_def tryPatterns_first)
  next
    case (Cons v vs)
    then show ?thesis
      by (simp add: combinations_def tryPatterns_first)
  qed
qed

lemma truthy_Some: "truthy v \<Longrightarrow> \<exists>t. v = Some t"
  by (cases v) (auto simp: truthy_def)

lemma keyword_containment:
  "containsCI t ''critical'' = includesStr (toLowerCase t) ''critical''"
  "containsCI t ''high'' = includesStr (toLowerCase t) ''high''"
  "containsCI t ''moderate'' = includesStr (toLowerCase t) ''moderate''"
  "containsCI t ''medium'' = includesStr (toLowerCase t) ''medium''"
  "containsCI t ''minimal'' = includesStr (toLowerCase t) ''minimal''"
  "containsCI t ''low'' = includesStr (toLowerCase t) ''low''"
  by (simp_all add: includes_lower_iff isLower_def)

lemma tryLabels_trimmed: "trimmed (tryLabels pg labels)"
  unfolding tryLabels_first
  by (cases "filter truthy (combinations pg labels)") (simp_all add: trimmed_trim, simp add: trimmed_def)

lemma extractFieldValue_trimmed: "trimmed (extractFieldValue ph labels)"
  by (cases ph) (simp_all add: extractFieldValue_def tryLabels_trimmed, simp add: trimmed_def)

lemma extractFieldValue_value:
  "firstValue pg labels = Some v \<Longrightarrow> extractFieldValue (Some pg) labels = trim v"
proof -
  assume f: "firstValue pg labels = Some v"
  then obtain w ws where c: "filter truthy (combinations pg labels) = w # ws" and w: "w = Some v"
    by (auto simp: firstValue_def split: list.splits)
  show ?thesis
    by (simp add: extractFieldValue_def tryLabels_first c w)
qed

lemma extractFieldValue_isTrimOf:
  "firstValue pg labels = Some v \<Longrightarrow> isTrimOf (extractFieldValue (Some pg) labels) v"
  by (simp add: extractFieldValue_value trim_isTrimOf)

lemma extractFieldValue_none:
  "firstValue pg labels = None \<Longrightarrow> extractFieldValue (Some pg) labels = []"
proof -
  assume f: "firstValue pg labels = None"
  have "filter truthy (combinations pg labels) = []"
  proof (cases "filter truthy (combinations pg labels)")
    case Nil
    then show ?thesis .
  next
    case (Cons w ws)
    then have "w \<in> set (filter truthy (combinations pg labels))" by simp
    then have "truthy w" by simp
    then obtain t where "w = Some t" using truthy_Some by blast
    then show ?thesis using f Cons by (simp add: firstValue_def)
  qed
  then show ?thesis by (simp add: extractFieldValue_def tryLabels_first)
qed

section \<open>Properties of the investigation parser\<close>

lemma upper_of_letter:
  "toUpperChar c = CHR ''C'' \<Longrightarrow> c = CHR ''c'' \<or> c = CHR ''C''"
  "toUpperChar c = CHR ''L'' \<Longrightarrow> c = CHR ''l'' \<or> c = CHR ''L''"
  "toUpperChar c = CHR ''O'' \<Longrightarrow> c = CHR ''o'' \<or> c = CHR ''O''"
  "toUpperChar c = CHR ''S'' \<Longrightarrow> c = CHR ''s'' \<or> c = CHR ''S''"
  "toUpperChar c = CHR ''E'' \<Longrightarrow> c = CHR ''e'' \<or> c = CHR ''E''"
  "toUpperChar c = CHR ''D'' \<Longrightarrow> c = CHR ''d'' \<or> c = CHR ''D''"
  "toUpperChar c = CHR ''P'' \<Longrightarrow> c = CHR ''p'' \<or> c = CHR ''P''"
  "toUpperChar c = CHR ''N'' \<Longrightarrow> c = CHR ''n'' \<or> c = CHR ''N''"
  by (simp_all add: toUpperChar_def split: if_splits)

lemma upper_consts:
  "toUpperChar (CHR ''c'') = CHR ''C''" "toUpperChar (CHR ''l'') = CHR ''L''"
  "toUpperChar (CHR ''o'') = CHR ''O''" "toUpperChar (CHR ''s'') = CHR ''S''"
  "toUpperChar (CHR ''e'') = CHR ''E''" "toUpperChar (CHR ''d'') = CHR ''D''"
  "toUpperChar (CHR ''p'') = CHR ''P''" "toUpperChar (CHR ''n'') = CHR ''N''"
  by (simp_all add: toUpperChar_def)

lemma lower_consts:
  "toLowerChar (CHR ''l'') = CHR ''l''" "toLowerChar (CHR ''L'') = CHR ''l''"
  "toLowerChar (CHR ''o'') = CHR ''o''" "toLowerChar (CHR ''O'') = CHR ''o''"
  "toLowerChar (CHR ''s'') = CHR ''s''" "toLowerChar (CHR ''S'') = CHR ''s''"
  "toLowerChar (CHR ''e'') = CHR ''e''" "toLowerChar (CHR ''E'') = CHR ''e''"
  "toLowerChar (CHR ''d'') = CHR ''d''" "toLowerChar (CHR ''D'') = CHR ''d''"
  "toLowerChar (CHR ''p'') = CHR ''p''" "toLowerChar (CHR ''P'') = CHR ''p''"
  "toLowerChar (CHR ''n'') = CHR ''n''" "toLowerChar (CHR ''N'') = CHR ''n''"
  by (simp_all add: toLowerChar_def)

lemma normalizeStatus_closed:
  assumes "matchAtoms (map LitI ''closed'') s = Some r"
  shows "normalizeStatus (take 6 s) = ''Closed''"
proof -
  from assms obtain c1 c2 c3 c4 c5 c6 where s: "s = c1 # c2 # c3 # c4 # c5 # c6 # r"
    and m: "toUpperChar c1 = CHR ''C''" "toUpperChar c2 = CHR ''L''" "toUpperChar c3 = CHR ''O''"
           "toUpperChar c4 = CHR ''S''" "toUpperChar c5 = CHR ''E''" "toUpperChar c6 = CHR ''D''"
    by (auto dest!: matchAtoms_Cons simp: upper_consts)
  have "toLowerChar c2 = CHR ''l''" "toLowerChar c3 = CHR ''o''" "toLowerChar c4 = CHR ''s''"
       "toLowerChar c5 = CHR ''e''" "toLowerChar c6 = CHR ''d''"
    using m(2-6) by (auto dest!: upper_of_letter simp: lower_consts)
  then show ?thesis
    using m(1) by (simp add: s normalizeStatus_def toUpperCase_def toLowerCase_def)
qed

lemma normalizeStatus_open:
  assumes "matchAtoms (map LitI ''open'') s = Some r"
  shows "normalizeStatus (take 4 s) = ''Open''"
proof -
  from assms obtain c1 c2 c3 c4 where s: "s = c1 # c2 # c3 # c4 # r"
    and m: "toUpperChar c1 = CHR ''O''" "toUpperChar c2 = CHR ''P''" "toUpperChar c3 = CHR ''E''"
           "toUpperChar c4 = CHR ''N''"
    by (auto dest!: matchAtoms_Cons simp: upper_consts)
  have "toLowerChar c2 = CHR ''p''" "toLowerChar c3 = CHR ''e''" "toLowerChar c4 = CHR ''n''"
    using m(2-4) by (auto dest!: upper_of_letter simp: lower_consts)
  then show ?thesis
    using m(1) by (simp add: s normalizeStatus_def toUpperCase_def toLowerCase_def)
qed

lemma matchStatus_normalized:
  assumes "matchStatus s = Some (st, r)"
  shows "normalizeStatus st = ''Closed'' \<or> normalizeStatus st = ''Open''"
proof (cases "matchAtoms (map LitI ''closed'') s")
  case (Some r')
  then have "st = take 6 s" using assms unfolding matchStatus_def by simp
  then show ?thesis using normalizeStatus_closed [OF Some] by simp
next
  case None
  then obtain r' where o: "matchAtoms (map LitI ''open'') s = Some r'" and "st = take 4 s"
    using assms unfolding matchStatus_def by (cases "matchAtoms (map LitI ''open'') s") simp_all
  then show ?thesis using normalizeStatus_open [OF o] by simp
qed

lemma matchInvestigation_status:
  "matchInvestigation s = Some (i, d, st, r) \<Longrightarrow>
     normalizeStatus st = ''Closed'' \<or> normalizeStatus st = ''Open''"
  by (auto simp: matchInvestigation_def split: option.splits dest: matchStatus_normalized)

lemma inv_status_mkInvestigation: "inv_status (mkInvestigation seen i d st) = normalizeStatus st"
  by (simp add: mkInvestigation_def Let_def)

lemma scanInvestigations_status:
  "list_all (\<lambda>inv. inv_status inv = ''Closed'' \<or> inv_status inv = ''Open'') acc \<Longrightarrow>
     list_all (\<lambda>inv. inv_status inv = ''Closed'' \<or> inv_status inv = ''Open'')
       (scanInvestigations acc seen s)"
proof (induction acc seen s rule: scanInvestigations.induct)
  case (1 acc seen)
  then show ?case by simp
next
  case (2 acc seen c cs)
  show ?case
  proof (cases "matchInvestigation (c # cs)")
    case None
    then show ?thesis using 2 by simp
  next
    case (Some m)
    obtain i d st rest where m: "m = (i, d, st, rest)" by (cases m)
    have "normalizeStatus st = ''Closed'' \<or> normalizeStatus st = ''Open''"
      using Some m matchInvestigation_status by blast
    then have "list_all (\<lambda>inv. inv_status inv = ''Closed'' \<or> inv_status inv = ''Open'')
                 (acc @ [mkInvestigation seen i d st])"
      using 2(3) by (simp add: inv_status_mkInvestigation)
    then have "list_all (\<lambda>inv. inv_status inv = ''Closed'' \<or> inv_status inv = ''Open'')
                 (scanInvestigations (acc @ [mkInvestigation seen i d st]) (seen @ i @ d @ st) rest)"
      using 2(2) [OF Some m [symmetric] refl refl] by simp
    then show ?thesis
      using Some m by simp
  qed
qed

lemma extractInvestigations_status:
  "list_all (\<lambda>inv. inv_status inv = ''Closed'' \<or> inv_status inv = ''Open'') (extractInvestigations ph)"
  using scanInvestigations_status [of "[]"]
  by (auto simp: extractInvestigations_def parseInvestigations_def split: option.splits sum.splits)

lemma upper_char_iff:
  "isLower k \<Longrightarrow> (toUpperChar c = toUpperChar k) = sameLetter c k"
  unfolding isLower_def
  by (simp, elim disjE) (auto simp: toUpperChar_def sameLetter_def)

lemma matchAtoms_drop: "matchAtoms ps s = Some r \<Longrightarrow> r = drop (length ps) s"
  by (induction ps s rule: matchAtoms.induct) (auto split: if_splits)

lemma matchAtoms_split: "matchAtoms ps s = Some r \<Longrightarrow> s = take (length ps) s @ r"
  using matchAtoms_drop [of ps s r] by simp

lemma matchAtoms_LitI:
  "list_all isLower k \<Longrightarrow> matchAtoms (map LitI k) s = Some r \<Longrightarrow>
     list_all2 sameLetter (take (length k) s) k"
proof (induction k arbitrary: s)
  case Nil
  then show ?case by simp
next
  case (Cons x k)
  from Cons.prems(2) obtain c cs where s: "s = c # cs" and c: "toUpperChar c = toUpperChar x"
    and m: "matchAtoms (map LitI k) cs = Some r"
    by (cases s) (auto split: if_splits)
  have "sameLetter c x"
    using c Cons.prems(1) by (simp add: upper_char_iff)
  then show ?case
    using Cons.IH [OF _ m] Cons.prems(1) by (simp add: s)
qed

lemma capital_closed:
  assumes "list_all2 sameLetter st ''closed''"
  shows "map toUpperChar (take 1 st) @ map toLowerChar (drop 1 st) = ''Closed''"
proof -
  have k: "list_all isLower ''losed''" by (simp add: isLower_def)
  from assms obtain c cs where st: "st = c # cs" and c: "sameLetter c (CHR ''c'')"
    and cs: "list_all2 sameLetter cs ''losed''"
    by (auto simp: list_all2_Cons2)
  have "toUpperChar c = CHR ''C''"
    using c upper_char_iff [of "CHR ''c''" c] by (simp add: isLower_def upper_consts)
  moreover have "map toLowerChar cs = ''losed''"
    using cs lower_map_iff [OF k, of cs] by simp
  ultimately show ?thesis by (simp add: st)
qed

lemma capital_open:
  assumes "list_all2 sameLetter st ''open''"
  shows "map toUpperChar (take 1 st) @ map toLowerChar (drop 1 st) = ''Open''"
proof -
  have k: "list_all isLower ''pen''" by (simp add: isLower_def)
  from assms obtain c cs where st: "st = c # cs" and c: "sameLetter c (CHR ''o'')"
    and cs: "list_all2 sameLetter cs ''pen''"
    by (auto simp: list_all2_Cons2)
  have "toUpperChar c = CHR ''O''"
    using c upper_char_iff [of "CHR ''o''" c] by (simp add: isLower_def upper_consts)
  moreover have "map toLowerChar cs = ''pen''"
    using cs lower_map_iff [OF k, of cs] by simp
  ultimately show ?thesis by (simp add: st)
qed

lemma matchStatus_shape:
  assumes "matchStatus s = Some (st, r)"
  shows "s = st @ r \<and> (list_all2 sameLetter st ''closed'' \<or> list_all2 sameLetter st ''open'')"
proof (cases "matchAtoms (map LitI ''closed'') s")
  case (Some r')
  then have st: "st = take 6 s" and r: "r = r'"
    using assms unfolding matchStatus_def by simp_all
  have "list_all2 sameLetter (take (length ''closed'') s) ''closed''"
    by (rule matchAtoms_LitI [OF _ Some]) (simp add: isLower_def)
  then have l: "list_all2 sameLetter st ''closed''" by (simp add: st eval_nat_numeral)
  have "s = take (length (map LitI ''closed'')) s @ r'" by (rule matchAtoms_split [OF Some])
  then have sp: "s = st @ r" unfolding st r by (simp add: eval_nat_numeral)
  from l have "list_all2 sameLetter st ''closed'' \<or> list_all2 sameLetter st ''open''" by (rule disjI1)
  with sp show ?thesis by (rule conjI)
next
  case None
  then obtain r' where o: "matchAtoms (map LitI ''open'') s = Some r'" and st: "st = take 4 s" and r: "r = r'"
    using assms unfolding matchStatus_def by (cases "matchAtoms (map LitI ''open'') s") simp_all
  have "list_all2 sameLetter (take (length ''open'') s) ''open''"
    by (rule matchAtoms_LitI [OF _ o]) (simp add: isLower_def)
  then have l: "list_all2 sameLetter st ''open''" by (simp add: st eval_nat_numeral)
  have "s = take (length (map LitI ''open'')) s @ r'" by (rule matchAtoms_split [OF o])
  then have sp: "s = st @ r" unfolding st r by (simp add: eval_nat_numeral)
  from l have "list_all2 sameLetter st ''closed'' \<or> list_all2 sameLetter st ''open''" by (rule disjI2)
  with sp show ?thesis by (rule conjI)
qed

lemma matchInvestigation_shape:
  assumes "matchInvestigation s = Some (i, d, st, r)"
  shows "s = i @ d @ st @ r \<and> (list_all2 sameLetter st ''closed'' \<or> list_all2 sameLetter st ''open'')"
proof -
  from assms obtain r1 r2 where a: "matchAtoms invIdPattern s = Some r1"
    and b: "matchAtoms datePattern r1 = Some r2" and c: "matchStatus r2 = Some (st, r)"
    and i: "i = take 12 s" and d: "d = take 10 r1"
    by (auto simp: matchInvestigation_def split: option.splits)
  have "s = take (length invIdPattern) s @ r1" by (rule matchAtoms_split [OF a])
  then have s1: "s = i @ r1" unfolding i by (simp add: invIdPattern_def eval_nat_numeral)
  have "r1 = take (length datePattern) r1 @ r2" by (rule matchAtoms_split [OF b])
  then have s2: "r1 = d @ r2" unfolding d by (simp add: datePattern_def eval_nat_numeral)
  have s3: "r2 = st @ r" and tk: "list_all2 sameLetter st ''closed'' \<or> list_all2 sameLetter st ''open''"
    using matchStatus_shape [OF c] by (rule conjunct1, rule conjunct2)
  have "s = i @ d @ st @ r" by (subst s1, subst s2, subst s3) (rule refl)
  with tk show ?thesis by (intro conjI)
qed

lemma scanInvestigations_matches:
  "blob = seen @ s \<Longrightarrow>
   list_all (\<lambda>found. \<exists>sn i d st rest. blob = sn @ i @ d @ st @ rest
       \<and> matchInvestigation (i @ d @ st @ rest) = Some (i, d, st, rest)
       \<and> found = mkInvestigation sn i d st) acc \<Longrightarrow>
   list_all (\<lambda>found. \<exists>sn i d st rest. blob = sn @ i @ d @ st @ rest
       \<and> matchInvestigation (i @ d @ st @ rest) = Some (i, d, st, rest)
       \<and> found = mkInvestigation sn i d st) (scanInvestigations acc seen s)"
proof (induction acc seen s rule: scanInvestigations.induct)
  case (1 acc seen)
  then show ?case by simp
next
  case (2 acc seen c cs)
  show ?case
  proof (cases "matchInvestigation (c # cs)")
    case None
    then show ?thesis using 2 by simp
  next
    case (Some m)
    obtain i d st rest where m: "m = (i, d, st, rest)" by (cases m)
    have mi: "matchInvestigation (c # cs) = Some (i, d, st, rest)" using Some m by simp
    have sh: "c # cs = i @ d @ st @ rest"
      using matchInvestigation_shape [OF mi] by simp
    have "\<exists>sn i' d' st' rest'. blob = sn @ i' @ d' @ st' @ rest'
       \<and> matchInvestigation (i' @ d' @ st' @ rest') = Some (i', d', st', rest')
       \<and> mkInvestigation seen i d st = mkInvestigation sn i' d' st'"
      using 2(3) sh mi
      by (intro exI [of _ seen] exI [of _ i] exI [of _ d] exI [of _ st] exI [of _ rest]) simp
    then have "list_all (\<lambda>found. \<exists>sn i d st rest. blob = sn @ i @ d @ st @ rest
       \<and> matchInvestigation (i @ d @ st @ rest) = Some (i, d, st, rest)
       \<and> found = mkInvestigation sn i d st) (acc @ [mkInvestigation seen i d st])"
      using 2(4) by simp
    moreover have "blob = (seen @ i @ d @ st) @ rest"
      using 2(3) sh by simp
    ultimately have "list_all (\<lambda>found. \<exists>sn i d st rest. blob = sn @ i @ d @ st @ rest
       \<and> matchInvestigation (i @ d @ st @ rest) = Some (i, d, st, rest)
       \<and> found = mkInvestigation sn i d st)
        (scanInvestigations (acc @ [mkInvestigation seen i d st]) (seen @ i @ d @ st) rest)"
      using 2(2) [OF Some m [symmetric] refl refl] by simp
    then show ?thesis
      using Some m by simp
  qed
qed

lemma parseInvestigations_matches:
  "list_all (\<lambda>found. \<exists>sn i d st rest. blob = sn @ i @ d @ st @ rest
       \<and> matchInvestigation (i @ d @ st @ rest) = Some (i, d, st, rest)
       \<and> found = mkInvestigation sn i d st) (parseInvestigations blob)"
  unfolding parseInvestigations_def by (rule scanInvestigations_matches) simp_all

section \<open>Properties of the assembler and the orchestrator\<close>

lemma page_captureScreenshot: "page (captureScreenshot s shot) = page s"
  by (simp add: captureScreenshot_def split: option.splits)

lemma page_extractCustomerData: "page (snd (extractCustomerData s)) = page s"
  by (simp add: extractCustomerData_def Let_def page_captureScreenshot split: option.splits sum.splits)

lemma extractCustomerData_page_only:
  "page s = page s' \<Longrightarrow> fst (extractCustomerData s) = fst (extractCustomerData s')"
  by (simp add: extractCustomerData_def Let_def page_captureScreenshot split: option.splits sum.splits)

lemma startsWith_append: "startsWith (k @ s) k"
  by (induction k) auto

lemma includesStr_startsWith: "startsWith s k \<Longrightarrow> includesStr s k"
  by (cases s) (auto elim: startsWith.elims)

lemma includesStr_append: "includesStr (p @ k @ s) k"
proof (induction p)
  case Nil
  show ?case using includesStr_startsWith [OF startsWith_append [of k s]] by simp
next
  case (Cons c p)
  then show ?case by simp
qed

lemma includesStr_suffix: "includesStr (p @ k) k"
  using includesStr_append [of p k "[]"] by simp

lemma execute_not_found:
  assumes "w_initialize w = None" "w_login w = None" "w_search w customerName = Inr False"
  shows "execute w customerName =
           browserFailure (''Customer '' @ dq @ customerName @ dq @ '' not found in ComplianceOS'')"
  using assms by (simp add: execute_def)

lemma investigateFrom_failure:
  "investigateFrom w customerName (browserFailure m) =
     (let notFoundReport = generateNotFoundReport customerName (orElse (Some m) ''Customer not found'') (w_isoTime w)
      in case w_save w notFoundReport of
           Inl e \<Rightarrow> (failed w e, [Save notFoundReport])
         | Inr path \<Rightarrow> (succeeded w notFoundReport path, [Save notFoundReport]))"
  by (simp add: investigateFrom_def browserFailure_def)

lemma extractCustomerData_with_page:
  "\<exists>customerData. fst (extractCustomerData \<lparr> page = Some pg, screenshots = shots \<rparr>) = Inr customerData"
  by (simp add: extractCustomerData_def extractPersonalInfo_def captureScreenshot_def Let_def)

lemma execute_cases:
  "(w_initialize w = None \<and> w_login w = None \<and> w_search w customerName = Inr True
      \<and> (\<exists>customerData. fst (extractCustomerData \<lparr> page = Some (w_page w), screenshots = [] \<rparr>) = Inr customerData
            \<and> execute w customerName = \<lparr> b_success = True, b_data = Some customerData, b_error = None \<rparr>))
   \<or> (\<not> (w_initialize w = None \<and> w_login w = None \<and> w_search w customerName = Inr True)
      \<and> (\<exists>m. execute w customerName = browserFailure m))"
proof (cases "w_initialize w = None \<and> w_login w = None \<and> w_search w customerName = Inr True")
  case True
  obtain customerData where "fst (extractCustomerData \<lparr> page = Some (w_page w), screenshots = [] \<rparr>) = Inr customerData"
    using extractCustomerData_with_page by blast
  then show ?thesis
    using True by (simp add: execute_def)
next
  case False
  then have "\<exists>m. execute w customerName = browserFailure m"
    by (auto simp: execute_def split: option.splits sum.splits)
  then show ?thesis
    using False by blast
qed

lemma investigateFrom_found:
  "snd (investigateFrom w customerName \<lparr> b_success = True, b_data = Some customerData, b_error = None \<rparr>)
     = Research customerData # tl (snd (investigateFrom w customerName \<lparr> b_success = True, b_data = Some customerData, b_error = None \<rparr>))
   \<and> researchCalls (snd (investigateFrom w customerName \<lparr> b_success = True, b_data = Some customerData, b_error = None \<rparr>)) = 1"
  by (simp add: investigateFrom_def Let_def researchCalls_def split: sum.splits)

lemma success_failed: "\<not> success (failed w m)"
  by (simp add: failed_def)

lemma success_succeeded: "success (succeeded w rep path)"
  by (simp add: succeeded_def)

section \<open>Claims\<close>

text \<open>
  Claim C1. Every transaction the transaction parser emits is flagged if and only if
  its counterparty text contains \<open>crypto\<close>, whatever the case of the letters, or the
  number read from its amount without the currency symbol and the thousands separators
  exceeds 10000. So an amount above 10000 flags the transaction whatever the
  counterparty, and a counterparty with \<open>crypto\<close> flags it whatever the amount. The
  number read is always a count of hundredths (\<open>cents / 10 ^ 2\<close>).
\<close>

theorem flagged_iff_crypto_or_large:
  "\<forall>t \<in> set (extractTransactions ph).
     (\<exists>cents. numericAmount (tx_amount t) = Some (cents, 2))
     \<and> flagged t = (includesStr (toLowerCase (counterparty t)) ''crypto''
                    \<or> exceeds (numericAmount (tx_amount t)) 10000)"
proof -
  have "list_all (\<lambda>t. (\<exists>cents. numericAmount (tx_amount t) = Some (cents, 2))
     \<and> flagged t = (includesStr (toLowerCase (counterparty t)) ''crypto''
                    \<or> exceeds (numericAmount (tx_amount t)) 10000)) (extractTransactions ph)"
  proof (rule extractTransactions_all)
    fix n d mc a
    assume "isAmount a"
    then have "\<exists>cents. numericAmount (tx_amount (mkTransaction n d mc a)) = Some (cents, 2)"
      using isAmount_numericAmount by (simp add: tx_amount_mkTransaction)
    then show "(\<exists>cents. numericAmount (tx_amount (mkTransaction n d mc a)) = Some (cents, 2))
      \<and> flagged (mkTransaction n d mc a) =
          (includesStr (toLowerCase (counterparty (mkTransaction n d mc a))) ''crypto''
           \<or> exceeds (numericAmount (tx_amount (mkTransaction n d mc a))) 10000)"
      using mkTransaction_flagged by blast
  qed
  then show ?thesis by (simp add: list_all_iff)
qed

text \<open>
  On the sample profile the second transaction is in the result, is flagged, and both
  reasons hold for it; the first is in the result and is not flagged.
\<close>

theorem flagged_iff_crypto_or_large_witness:
  "\<lparr> tx_id = ''TXN-2'', tx_date = ''2024-01-16'', tx_amount = ''$12,500.00'',
      counterparty = ''Crypto Exchange'', tx_type = ''Transfer'', tx_status = ''Completed'',
      flagged = True \<rparr> \<in> set (extractTransactions (Some profilePage))
   \<and> includesStr (toLowerCase ''Crypto Exchange'') ''crypto''
   \<and> exceeds (numericAmount ''$12,500.00'') 10000
   \<and> \<lparr> tx_id = ''TXN-1'', tx_date = ''2024-01-15'', tx_amount = ''$4500.00'',
      counterparty = ''Best Buy'', tx_type = ''Electronics'', tx_status = ''Completed'',
      flagged = False \<rparr> \<in> set (extractTransactions (Some profilePage))
   \<and> \<not> includesStr (toLowerCase ''Best Buy'') ''crypto''
   \<and> \<not> exceeds (numericAmount ''$4500.00'') 10000"
proof -
  have ev: "extractTransactions (Some profilePage) =
    [ \<lparr> tx_id = ''TXN-1'', tx_date = ''2024-01-15'', tx_amount = ''$4500.00'',
        counterparty = ''Best Buy'', tx_type = ''Electronics'', tx_status = ''Completed'',
        flagged = False \<rparr>,
      \<lparr> tx_id = ''TXN-2'', tx_date = ''2024-01-16'', tx_amount = ''$12,500.00'',
        counterparty = ''Crypto Exchange'', tx_type = ''Transfer'', tx_status = ''Completed'',
        flagged = True \<rparr> ]"
    by code_simp
  have c: "includesStr (toLowerCase ''Crypto Exchange'') ''crypto''"
    by code_simp
  have n: "\<not> includesStr (toLowerCase ''Best Buy'') ''crypto''"
    by code_simp
  have x: "exceeds (numericAmount ''$12,500.00'') 10000"
    by code_simp
  show ?thesis
    using flagged_iff_crypto_or_large [of "Some profilePage"] c n x
    by (simp add: ev)
qed

text \<open>
  Claim C2. For a blob made of well-formed records only (a calendar date, a text
  without \<open>$\<close> and digits, a currency amount), shown under a visible transaction
  heading, the parser returns one transaction for each record, in the order of the
  records, the \<open>i\<close>-th carrying the date and the amount of the \<open>i\<close>-th record and the
  identifier of sequence number \<open>i\<close> counted from 1, which the code writes
  \<open>TXN-i\<close>: the numbers in the identifiers are 1, 2, ..., N in this order, and the
  identifiers are pairwise distinct.
\<close>

theorem well_formed_blob_transactions:
  assumes "list_all wellFormedRecord rs"
    and "isVisible pg (headingSelector ''Recent Transactions'')"
    and "containerText pg (headingSelector ''Recent Transactions'') = Inr (Some (blobOf rs))"
  shows "extractTransactions (Some pg) = expectedTransactions 0 rs
     \<and> length (extractTransactions (Some pg)) = length rs
     \<and> (\<forall>i < length rs.
           tx_id (extractTransactions (Some pg) ! i) = ''TXN-'' @ showNat (i + 1)
         \<and> tx_date (extractTransactions (Some pg) ! i) = fst (rs ! i)
         \<and> tx_amount (extractTransactions (Some pg) ! i) = snd (snd (rs ! i)))
     \<and> map (\<lambda>t. digitsValue (drop 4 (tx_id t))) (extractTransactions (Some pg))
           = map int [1 ..< length rs + 1]
     \<and> distinct (map tx_id (extractTransactions (Some pg)))"
  unfolding extractTransactions_blob [OF assms]
  using numbers_expected [of 0 rs]
  by (simp add: length_expected nth_expected distinct_ids_expected
        tx_id_mkTransaction tx_date_mkTransaction tx_amount_mkTransaction)

theorem well_formed_blob_transactions_witness:
  "list_all wellFormedRecord sampleRecords
   \<and> isVisible (sectionPage ''Recent Transactions'' (blobOf sampleRecords))
        (headingSelector ''Recent Transactions'')
   \<and> containerText (sectionPage ''Recent Transactions'' (blobOf sampleRecords))
        (headingSelector ''Recent Transactions'') = Inr (Some (blobOf sampleRecords))
   \<and> length (extractTransactions (Some (sectionPage ''Recent Transactions'' (blobOf sampleRecords)))) = 2
   \<and> tx_id (extractTransactions (Some (sectionPage ''Recent Transactions'' (blobOf sampleRecords))) ! 1) = ''TXN-2''
   \<and> tx_date (extractTransactions (Some (sectionPage ''Recent Transactions'' (blobOf sampleRecords))) ! 1) = ''2024-01-16''
   \<and> tx_amount (extractTransactions (Some (sectionPage ''Recent Transactions'' (blobOf sampleRecords))) ! 1) = ''$12,500.00''"
proof -
  have wf: "list_all wellFormedRecord sampleRecords"
    by code_simp
  have vis: "isVisible (sectionPage ''Recent Transactions'' (blobOf sampleRecords))
        (headingSelector ''Recent Transactions'')"
    by (simp add: sectionPage_def)
  have ctx: "containerText (sectionPage ''Recent Transactions'' (blobOf sampleRecords))
        (headingSelector ''Recent Transactions'') = Inr (Some (blobOf sampleRecords))"
    by (simp add: sectionPage_def)
  have two: "showNat 2 = ''2''"
    by code_simp
  have len: "length sampleRecords = 2" and r1: "sampleRecords ! 1 = (''2024-01-16'', ''Crypto ExchangeTransfer'', ''$12,500.00'')"
    by (simp_all add: sampleRecords_def)
  note all = well_formed_blob_transactions [OF wf vis ctx]
  have one: "1 < length sampleRecords"
    by (simp add: len)
  have "1 + 1 = (2::nat)"
    by simp
  then show ?thesis
    using all [THEN conjunct2, THEN conjunct1]
      all [THEN conjunct2, THEN conjunct2, THEN conjunct1, rule_format, OF one] wf vis ctx
    by (simp only: len r1 two fst_conv snd_conv append.simps)
qed

text \<open>
  Claim C3. When the customer search reports that the customer was not found, whatever
  the customer name, the orchestrator takes the not-found branch: the language model
  behind the research agent is called zero times (and so for every reason a failed
  browser phase reports), the only call is the saving of the not-found report, and that
  report has zero transactions, zero investigations, no recent investigation and the
  risk level \<open>Unknown\<close>. The report is the one returned, with the path it was saved
  under; if saving throws, the error reaches the handler of \<open>investigate\<close>.
\<close>

theorem not_found_skips_research:
  assumes "w_initialize w = None" "w_login w = None" "w_search w customerName = Inr False"
    and "notFoundReport = generateNotFoundReport customerName
           (''Customer '' @ dq @ customerName @ dq @ '' not found in ComplianceOS'') (w_isoTime w)"
  shows "researchCalls (snd (investigate w customerName)) = 0
   \<and> snd (investigate w customerName) = [Save notFoundReport]
   \<and> ts_total (transactionsSummary (internalDataOverview notFoundReport)) = 0
   \<and> ih_total (investigationHistory (internalDataOverview notFoundReport)) = 0
   \<and> ih_recent (investigationHistory (internalDataOverview notFoundReport)) = []
   \<and> overviewRiskLevel (internalDataOverview notFoundReport) = ''Unknown''
   \<and> fst (investigate w customerName) =
        (case w_save w notFoundReport of
           Inl m \<Rightarrow> failed w m
         | Inr path \<Rightarrow> succeeded w notFoundReport path)
   \<and> (\<forall>reason. researchCalls (snd (investigateFrom w customerName (browserFailure reason))) = 0)"
proof -
  have i: "investigate w customerName =
      (case w_save w notFoundReport of
         Inl e \<Rightarrow> (failed w e, [Save notFoundReport])
       | Inr path \<Rightarrow> (succeeded w notFoundReport path, [Save notFoundReport]))"
    unfolding assms(4)
    by (simp add: investigate_def execute_not_found [OF assms(1-3)] investigateFrom_failure
          orElse_def Let_def split: sum.splits)
  have "ts_total (transactionsSummary (internalDataOverview notFoundReport)) = 0
   \<and> ih_total (investigationHistory (internalDataOverview notFoundReport)) = 0
   \<and> ih_recent (investigationHistory (internalDataOverview notFoundReport)) = []
   \<and> overviewRiskLevel (internalDataOverview notFoundReport) = ''Unknown''"
    by (simp add: assms(4) generateNotFoundReport_def)
  moreover have "\<forall>reason. researchCalls (snd (investigateFrom w customerName (browserFailure reason))) = 0"
    by (simp add: investigateFrom_failure Let_def researchCalls_def split: sum.splits)
  ultimately show ?thesis
    unfolding i by (cases "w_save w notFoundReport") (simp_all add: researchCalls_def)
qed

theorem not_found_skips_research_witness:
  "w_initialize sampleWorld = None \<and> w_login sampleWorld = None
   \<and> w_search sampleWorld ''John Roe'' = Inr False
   \<and> researchCalls (snd (investigate sampleWorld ''John Roe'')) = 0
   \<and> success (fst (investigate sampleWorld ''John Roe''))
   \<and> report (fst (investigate sampleWorld ''John Roe'')) =
        Some (generateNotFoundReport ''John Roe''
          (''Customer '' @ dq @ ''John Roe'' @ dq @ '' not found in ComplianceOS'') ''2024-02-01T09:00:00.000Z'')"
proof -
  have a: "w_initialize sampleWorld = None" and b: "w_login sampleWorld = None"
    and c: "w_search sampleWorld ''John Roe'' = Inr False"
    and t: "w_isoTime sampleWorld = ''2024-02-01T09:00:00.000Z''"
    and s: "\<And>rep. w_save sampleWorld rep = Inr ''reports/compliance_report.md''"
    by (simp_all add: sampleWorld_def)
  show ?thesis
    using not_found_skips_research [OF a b c refl] a b c
    by (simp add: t s succeeded_def researchCalls_def)
qed

text \<open>
  Claim C4, as stated: the not-found report has placeholder personal fields that are
  all \<open>N/A\<close>. The name in the customer profile of the report is the customer name.
\<close>

theorem not_found_report_fields_counterexample:
  "name (customerProfile (internalDataOverview
      (generateNotFoundReport ''John Roe'' ''Customer not found'' ''2024-02-01T09:00:00.000Z''))) = ''John Roe''
   \<and> name (customerProfile (internalDataOverview
      (generateNotFoundReport ''John Roe'' ''Customer not found'' ''2024-02-01T09:00:00.000Z''))) \<noteq> ''N/A''"
  by (simp add: generateNotFoundReport_def)

text \<open>
  Claim C4, amended: for every customer name and reason, the not-found report has the
  date of birth and the address \<open>N/A\<close>, the customer name as its name and no customer
  number, e-mail or telephone, the risk level \<open>Unknown\<close>, the three fixed recommended
  actions, and an executive summary that contains the reason as it was supplied; all
  its fields but the time of generation are determined by the name and the reason.
\<close>

theorem not_found_report_fields:
  "dateOfBirth (customerProfile (internalDataOverview (generateNotFoundReport customerName reason now))) = ''N/A''
   \<and> address (customerProfile (internalDataOverview (generateNotFoundReport customerName reason now))) = ''N/A''
   \<and> name (customerProfile (internalDataOverview (generateNotFoundReport customerName reason now))) = customerName
   \<and> customerId (customerProfile (internalDataOverview (generateNotFoundReport customerName reason now))) = None
   \<and> email (customerProfile (internalDataOverview (generateNotFoundReport customerName reason now))) = None
   \<and> phone (customerProfile (internalDataOverview (generateNotFoundReport customerName reason now))) = None
   \<and> overviewRiskLevel (internalDataOverview (generateNotFoundReport customerName reason now)) = ''Unknown''
   \<and> recommendedActions (generateNotFoundReport customerName reason now) =
         [ ''Verify customer name spelling and try again'',
           ''Check if customer exists in ComplianceOS database'',
           ''Contact system administrator if customer should exist'' ]
   \<and> includesStr (executiveSummary (generateNotFoundReport customerName reason now)) reason
   \<and> generateNotFoundReport customerName reason now =
         (generateNotFoundReport customerName reason later)\<lparr> generatedAt := now \<rparr>"
proof -
  have "executiveSummary (generateNotFoundReport customerName reason now) =
          (''Investigation for '' @ customerName @ '' could not be completed. '') @ reason"
    by (simp add: generateNotFoundReport_def)
  then have "includesStr (executiveSummary (generateNotFoundReport customerName reason now)) reason"
    by (simp only: includesStr_suffix)
  then show ?thesis
    by (simp add: generateNotFoundReport_def)
qed

theorem not_found_report_fields_witness:
  "executiveSummary (generateNotFoundReport ''John Roe'' ''Customer not found'' ''2024-02-01T09:00:00.000Z'')
     = ''Investigation for John Roe could not be completed. Customer not found''
   \<and> includesStr ''Investigation for John Roe could not be completed. Customer not found'' ''Customer not found''
   \<and> dateOfBirth (customerProfile (internalDataOverview
         (generateNotFoundReport ''John Roe'' ''Customer not found'' ''2024-02-01T09:00:00.000Z''))) = ''N/A''"
proof -
  have e: "executiveSummary (generateNotFoundReport ''John Roe'' ''Customer not found'' ''2024-02-01T09:00:00.000Z'')
     = ''Investigation for John Roe could not be completed. Customer not found''"
    by (simp add: generateNotFoundReport_def)
  show ?thesis
    using not_found_report_fields [of "''John Roe''" "''Customer not found''" "''2024-02-01T09:00:00.000Z''"]
    by (simp only: e)
qed

text \<open>
  Claim C5. The risk level is the located risk text classified by the keywords it
  contains, whatever the case of the letters and in this priority: \<open>critical\<close> or
  \<open>high\<close> give \<open>High\<close>, otherwise \<open>moderate\<close> or \<open>medium\<close> give \<open>Medium\<close>, otherwise
  \<open>minimal\<close> or \<open>low\<close> give \<open>Low\<close>, otherwise the located text itself is the result,
  which is the text found on the page without the white space at its ends; when no
  text was located, or there is no page, the result is \<open>Unknown\<close>.
\<close>

theorem risk_normalization:
  assumes "extractFieldValue (Some pg) riskLabels = located"
  shows "extractRiskLevel (Some pg) =
     (if located = [] then ''Unknown''
      else if containsCI located ''critical'' \<or> containsCI located ''high'' then ''High''
      else if containsCI located ''moderate'' \<or> containsCI located ''medium'' then ''Medium''
      else if containsCI located ''minimal'' \<or> containsCI located ''low'' then ''Low''
      else located)
   \<and> trimmed located
   \<and> (case firstValue pg riskLabels of None \<Rightarrow> located = [] | Some v \<Rightarrow> isTrimOf located v)
   \<and> extractRiskLevel None = ''Unknown''"
proof -
  have "(firstValue pg riskLabels = None \<and> located = [])
        \<or> (\<exists>v. firstValue pg riskLabels = Some v \<and> located = trim v)"
    using extractFieldValue_none [of pg riskLabels] extractFieldValue_value [of pg riskLabels] assms
    by (cases "firstValue pg riskLabels") auto
  then have shape: "(firstValue pg riskLabels = None \<and> located = [])
        \<or> (\<exists>v. firstValue pg riskLabels = Some v
               \<and> located = rev (dropWhile isSpace (rev (dropWhile isSpace v))))"
    unfolding trim_def .
  have r: "(case firstValue pg riskLabels of None \<Rightarrow> located = [] | Some v \<Rightarrow> isTrimOf located v)"
    using shape strip_isTrimOf by auto
  have t: "trimmed located"
  proof (cases "located = []")
    case True
    then show ?thesis by (simp add: trimmed_def)
  next
    case False
    then obtain v where "located = rev (dropWhile isSpace (rev (dropWhile isSpace v)))"
      using shape by auto
    then show ?thesis using strip_isTrimOf [of v] by (simp add: isTrimOf_def)
  qed
  have i: "rev (dropWhile isSpace (rev (dropWhile isSpace located))) = located"
    using t by (rule strip_trimmed)
  have k: "\<And>k. list_all isLower k \<Longrightarrow> includesStr (map toLowerChar located) k = containsCI located k"
    by (rule includes_lower_map_iff)
  have l: "list_all isLower ''critical''" "list_all isLower ''high''" "list_all isLower ''moderate''"
    "list_all isLower ''medium''" "list_all isLower ''minimal''" "list_all isLower ''low''"
    by (simp_all add: isLower_def)
  have e: "extractFieldValue (Some pg) [''Risk Level'', ''Risk'', ''Risk Score'', ''Risk Rating''] = located"
    using assms by (simp add: riskLabels_def)
  have "extractRiskLevel (Some pg) =
     (if located = [] then ''Unknown''
      else if containsCI located ''critical'' \<or> containsCI located ''high'' then ''High''
      else if containsCI located ''moderate'' \<or> containsCI located ''medium'' then ''Medium''
      else if containsCI located ''minimal'' \<or> containsCI located ''low'' then ''Low''
      else located)"
    unfolding extractRiskLevel_def toLowerCase_def trim_def
    by (simp only: option.case e Let_def i k [OF l(1)] k [OF l(2)] k [OF l(3)] k [OF l(4)]
          k [OF l(5)] k [OF l(6)]) auto
  moreover have "extractRiskLevel None = ''Unknown''"
    by (simp add: extractRiskLevel_def)
  ultimately show ?thesis
    using t r by simp
qed

text \<open>
  The three examples of the specification, a keyword in upper case that takes priority
  over a later \<open>low\<close>, and a text without keyword that the page shows between white
  space.
\<close>

theorem risk_normalization_witness:
  "extractFieldValue (Some profilePage) riskLabels = ''Current Levelmedium RiskLast assessment...''
   \<and> extractRiskLevel (Some profilePage) = ''Medium''
   \<and> extractFieldValue (Some (labelPage ''Risk'' ''HIGH RISK (low volume)'')) riskLabels = ''HIGH RISK (low volume)''
   \<and> containsCI ''HIGH RISK (low volume)'' ''high''
   \<and> extractRiskLevel (Some (labelPage ''Risk'' ''HIGH RISK (low volume)'')) = ''High''
   \<and> firstValue (labelPage ''Risk Score'' ('' Elevated '' @ [CHR 0x0A])) riskLabels = Some ('' Elevated '' @ [CHR 0x0A])
   \<and> extractFieldValue (Some (labelPage ''Risk Score'' ('' Elevated '' @ [CHR 0x0A]))) riskLabels = ''Elevated''
   \<and> extractRiskLevel (Some (labelPage ''Risk Score'' ('' Elevated '' @ [CHR 0x0A]))) = ''Elevated''
   \<and> extractFieldValue (Some (labelPage ''Risk'' ''N/A'')) riskLabels = ''N/A''
   \<and> extractRiskLevel (Some (labelPage ''Risk'' ''N/A'')) = ''N/A''
   \<and> extractFieldValue (Some emptyPage) riskLabels = []
   \<and> extractRiskLevel (Some emptyPage) = ''Unknown''"
proof -
  have a: "extractFieldValue (Some profilePage) riskLabels = ''Current Levelmedium RiskLast assessment...''"
    by code_simp
  have h: "extractFieldValue (Some (labelPage ''Risk'' ''HIGH RISK (low volume)'')) riskLabels = ''HIGH RISK (low volume)''"
    by code_simp
  have e: "extractFieldValue (Some (labelPage ''Risk Score'' ('' Elevated '' @ [CHR 0x0A]))) riskLabels = ''Elevated''"
    by code_simp
  have f: "firstValue (labelPage ''Risk Score'' ('' Elevated '' @ [CHR 0x0A])) riskLabels = Some ('' Elevated '' @ [CHR 0x0A])"
    by code_simp
  have b: "extractFieldValue (Some (labelPage ''Risk'' ''N/A'')) riskLabels = ''N/A''"
    by code_simp
  have c: "extractFieldValue (Some emptyPage) riskLabels = []"
    by code_simp
  have hc: "containsCI ''HIGH RISK (low volume)'' ''high''"
    unfolding keyword_containment by code_simp
  have a': "extractRiskLevel (Some profilePage) = ''Medium''"
    unfolding risk_normalization [OF a, THEN conjunct1] keyword_containment by code_simp
  have h': "extractRiskLevel (Some (labelPage ''Risk'' ''HIGH RISK (low volume)'')) = ''High''"
    unfolding risk_normalization [OF h, THEN conjunct1] keyword_containment by code_simp
  have e': "extractRiskLevel (Some (labelPage ''Risk Score'' ('' Elevated '' @ [CHR 0x0A]))) = ''Elevated''"
    unfolding risk_normalization [OF e, THEN conjunct1] keyword_containment by code_simp
  have b': "extractRiskLevel (Some (labelPage ''Risk'' ''N/A'')) = ''N/A''"
    unfolding risk_normalization [OF b, THEN conjunct1] keyword_containment by code_simp
  have c': "extractRiskLevel (Some emptyPage) = ''Unknown''"
    unfolding risk_normalization [OF c, THEN conjunct1] by simp
  show ?thesis
    using a h e f b c hc a' h' e' b' c' by simp
qed

text \<open>
  Claim C6. For the container text \<open>Unusual transaction volumeINV-2023-0012023-11-15closed\<close>
  the investigation parser returns exactly one investigation, with the identifier
  \<open>INV-2023-001\<close> as it stands in the text, the date \<open>2023-11-15\<close> and the status
  \<open>Closed\<close>. Every investigation it returns, for any container text, comes from a match
  of the pattern in that text: its identifier and date are the matched ones, and its
  status is the matched token, \<open>open\<close> or \<open>closed\<close> in any case of the letters, with its
  first letter in upper case and the others in lower case; so every status is \<open>Open\<close>
  or \<open>Closed\<close>. Under a visible heading the investigations extracted from a page are
  those of its container text.
\<close>

theorem investigation_example_and_status:
  "parseInvestigations ''Unusual transaction volumeINV-2023-0012023-11-15closed'' =
     [ \<lparr> inv_id = ''INV-2023-001'', inv_date = ''2023-11-15'', inv_status = ''Closed'',
         investigator = ''Compliance Officer'', summary = ''Unusual transaction volume'' \<rparr> ]
   \<and> (\<forall>inv \<in> set (extractInvestigations ph).
         inv_status inv = ''Closed'' \<or> inv_status inv = ''Open'')
   \<and> (\<forall>inv \<in> set (parseInvestigations blob). fromMatch blob inv)
   \<and> (isVisible pg (headingSelector ''Past Investigations'')
        \<and> containerText pg (headingSelector ''Past Investigations'') = Inr (Some blob)
        \<longrightarrow> extractInvestigations (Some pg) = parseInvestigations blob)"
proof -
  have "parseInvestigations ''Unusual transaction volumeINV-2023-0012023-11-15closed'' =
     [ \<lparr> inv_id = ''INV-2023-001'', inv_date = ''2023-11-15'', inv_status = ''Closed'',
         investigator = ''Compliance Officer'', summary = ''Unusual transaction volume'' \<rparr> ]"
    by code_simp
  moreover have "\<forall>inv \<in> set (extractInvestigations ph).
         inv_status inv = ''Closed'' \<or> inv_status inv = ''Open''"
    using extractInvestigations_status [of ph] by (simp add: list_all_iff)
  moreover have "\<forall>inv \<in> set (parseInvestigations blob). fromMatch blob inv"
  proof
    fix found
    assume "found \<in> set (parseInvestigations blob)"
    then obtain sn i d st rest where b: "blob = sn @ i @ d @ st @ rest"
      and m: "matchInvestigation (i @ d @ st @ rest) = Some (i, d, st, rest)"
      and v: "found = mkInvestigation sn i d st"
      using parseInvestigations_matches [of blob] by (auto simp: list_all_iff)
    have f: "inv_id found = i" "inv_date found = d" "inv_status found = normalizeStatus st"
      by (simp_all add: v mkInvestigation_def Let_def)
    have sh: "list_all2 sameLetter st ''closed'' \<or> list_all2 sameLetter st ''open''"
      using matchInvestigation_shape [OF m] by (rule conjunct2)
    have n: "normalizeStatus st = map toUpperChar (take 1 st) @ map toLowerChar (drop 1 st)"
      unfolding normalizeStatus_def toUpperCase_def toLowerCase_def by (rule refl)
    have "capitalisedToken st (inv_status found)"
      unfolding f(3) n capitalisedToken_def using sh capital_closed capital_open by auto
    then show "fromMatch blob found"
      unfolding fromMatch_def using b m f(1,2) by blast
  qed
  moreover have "isVisible pg (headingSelector ''Past Investigations'')
        \<and> containerText pg (headingSelector ''Past Investigations'') = Inr (Some blob)
        \<longrightarrow> extractInvestigations (Some pg) = parseInvestigations blob"
    by (simp add: extractInvestigations_def)
  ultimately show ?thesis
    by (intro conjI)
qed

text \<open>
  A container with two investigations, the second with a lower-case identifier and the
  status token \<open>OPEN\<close>, a container whose status token is \<open>CLOSED\<close>, and the
  container of the claim shown on a page.
\<close>

theorem investigation_example_and_status_witness:
  "\<lparr> inv_id = ''inv-2024-002'', inv_date = ''2024-02-01'', inv_status = ''Open'',
      investigator = ''Compliance Officer'', summary = ''Large cash deposits'' \<rparr>
     \<in> set (parseInvestigations
          ''Past InvestigationsUnusual transaction volumeINV-2023-0012023-11-15closedLarge cash depositsinv-2024-0022024-02-01OPEN'')
   \<and> fromMatch
        ''Past InvestigationsUnusual transaction volumeINV-2023-0012023-11-15closedLarge cash depositsinv-2024-0022024-02-01OPEN''
        \<lparr> inv_id = ''inv-2024-002'', inv_date = ''2024-02-01'', inv_status = ''Open'',
          investigator = ''Compliance Officer'', summary = ''Large cash deposits'' \<rparr>
   \<and> list_all2 sameLetter ''OPEN'' ''open''
   \<and> parseInvestigations ''Wire transfer reviewINV-2022-0072022-03-04CLOSED'' =
       [ \<lparr> inv_id = ''INV-2022-007'', inv_date = ''2022-03-04'', inv_status = ''Closed'',
           investigator = ''Compliance Officer'', summary = ''Wire transfer review'' \<rparr> ]
   \<and> fromMatch ''Wire transfer reviewINV-2022-0072022-03-04CLOSED''
        \<lparr> inv_id = ''INV-2022-007'', inv_date = ''2022-03-04'', inv_status = ''Closed'',
          investigator = ''Compliance Officer'', summary = ''Wire transfer review'' \<rparr>
   \<and> list_all2 sameLetter ''CLOSED'' ''closed''
   \<and> \<lparr> inv_id = ''INV-2023-001'', inv_date = ''2023-11-15'', inv_status = ''Closed'',
      investigator = ''Compliance Officer'', summary = ''Unusual transaction volume'' \<rparr>
     \<in> set (extractInvestigations (Some (sectionPage ''Past Investigations''
          ''Unusual transaction volumeINV-2023-0012023-11-15closed'')))"
proof -
  have a: "parseInvestigations
          ''Past InvestigationsUnusual transaction volumeINV-2023-0012023-11-15closedLarge cash depositsinv-2024-0022024-02-01OPEN'' =
    [ \<lparr> inv_id = ''INV-2023-001'', inv_date = ''2023-11-15'', inv_status = ''Closed'',
        investigator = ''Compliance Officer'', summary = ''Unusual transaction volume'' \<rparr>,
      \<lparr> inv_id = ''inv-2024-002'', inv_date = ''2024-02-01'', inv_status = ''Open'',
        investigator = ''Compliance Officer'', summary = ''Large cash deposits'' \<rparr> ]"
    by code_simp
  have v: "isVisible (sectionPage ''Past Investigations'' ''Unusual transaction volumeINV-2023-0012023-11-15closed'')
             (headingSelector ''Past Investigations'')
           \<and> containerText (sectionPage ''Past Investigations'' ''Unusual transaction volumeINV-2023-0012023-11-15closed'')
             (headingSelector ''Past Investigations'') = Inr (Some ''Unusual transaction volumeINV-2023-0012023-11-15closed'')"
    by (simp add: sectionPage_def)
  have l: "list_all2 sameLetter ''OPEN'' ''open''" "list_all2 sameLetter ''CLOSED'' ''closed''"
    by (simp_all add: sameLetter_def)
  have k: "parseInvestigations ''Wire transfer reviewINV-2022-0072022-03-04CLOSED'' =
       [ \<lparr> inv_id = ''INV-2022-007'', inv_date = ''2022-03-04'', inv_status = ''Closed'',
           investigator = ''Compliance Officer'', summary = ''Wire transfer review'' \<rparr> ]"
    by code_simp
  note th3 = investigation_example_and_status
    [where blob = "''Wire transfer reviewINV-2022-0072022-03-04CLOSED''"]
  have n: "fromMatch ''Wire transfer reviewINV-2022-0072022-03-04CLOSED''
        \<lparr> inv_id = ''INV-2022-007'', inv_date = ''2022-03-04'', inv_status = ''Closed'',
          investigator = ''Compliance Officer'', summary = ''Wire transfer review'' \<rparr>"
    using th3 [THEN conjunct2, THEN conjunct2, THEN conjunct1] by (simp add: k)
  note th1 = investigation_example_and_status
    [where blob = "''Past InvestigationsUnusual transaction volumeINV-2023-0012023-11-15closedLarge cash depositsinv-2024-0022024-02-01OPEN''"]
  note th2 = investigation_example_and_status
    [where pg = "sectionPage ''Past Investigations'' ''Unusual transaction volumeINV-2023-0012023-11-15closed''"
       and blob = "''Unusual transaction volumeINV-2023-0012023-11-15closed''"]
  have m: "fromMatch
        ''Past InvestigationsUnusual transaction volumeINV-2023-0012023-11-15closedLarge cash depositsinv-2024-0022024-02-01OPEN''
        \<lparr> inv_id = ''inv-2024-002'', inv_date = ''2024-02-01'', inv_status = ''Open'',
          investigator = ''Compliance Officer'', summary = ''Large cash deposits'' \<rparr>"
    using th1 [THEN conjunct2, THEN conjunct2, THEN conjunct1] by (simp add: a)
  have e: "extractInvestigations (Some (sectionPage ''Past Investigations''
          ''Unusual transaction volumeINV-2023-0012023-11-15closed'')) =
      [ \<lparr> inv_id = ''INV-2023-001'', inv_date = ''2023-11-15'', inv_status = ''Closed'',
         investigator = ''Compliance Officer'', summary = ''Unusual transaction volume'' \<rparr> ]"
    using th2 [THEN conjunct2, THEN conjunct2, THEN conjunct2, rule_format, OF v] th2 [THEN conjunct1]
    by (rule trans)
  show ?thesis
    using m n l by (simp add: a e k)
qed

text \<open>
  Claim C7, as stated: the run goes on to the research phase exactly when the search
  reports a match and the assembled record has a non-empty name, and ends with the
  not-found report otherwise. In the run below the search reports a match and the page
  shows nothing: the record has an empty name, and it is handed to the research phase;
  no not-found report is made.
\<close>

theorem found_despite_empty_name_counterexample:
  "w_initialize blankWorld = None \<and> w_login blankWorld = None
   \<and> w_search blankWorld ''Jane Doe'' = Inr True
   \<and> execute blankWorld ''Jane Doe'' =
       \<lparr> b_success = True,
         b_data = Some \<lparr> personalInfo =
                          \<lparr> name = [], dateOfBirth = [], address = [], customerId = Some [],
                            email = Some [], phone = Some [], profession = None \<rparr>,
                        riskLevel = ''Unknown'', transactions = [], investigations = [] \<rparr>,
         b_error = None \<rparr>
   \<and> snd (investigate blankWorld ''Jane Doe'') =
       [Research \<lparr> personalInfo =
                    \<lparr> name = [], dateOfBirth = [], address = [], customerId = Some [],
                      email = Some [], phone = Some [], profession = None \<rparr>,
                  riskLevel = ''Unknown'', transactions = [], investigations = [] \<rparr>]
   \<and> researchCalls (snd (investigate blankWorld ''Jane Doe'')) = 1"
  by code_simp

text \<open>
  Claim C7, amended: the run goes on to the research phase, which receives the
  assembled record, exactly when the browser starts, the login succeeds and the search
  reports a match, whatever the name in the record; in every other case the research
  phase is not entered and the only call is the saving of a not-found report.
\<close>

theorem found_iff_browser_phase_succeeds:
  "(if w_initialize w = None \<and> w_login w = None \<and> w_search w customerName = Inr True
    then \<exists>customerData.
           fst (extractCustomerData \<lparr> page = Some (w_page w), screenshots = [] \<rparr>) = Inr customerData
         \<and> hd (snd (investigate w customerName)) = Research customerData
         \<and> researchCalls (snd (investigate w customerName)) = 1
    else researchCalls (snd (investigate w customerName)) = 0
         \<and> (\<exists>reason. snd (investigate w customerName) =
                [Save (generateNotFoundReport customerName reason (w_isoTime w))]))"
proof (cases "w_initialize w = None \<and> w_login w = None \<and> w_search w customerName = Inr True")
  case True
  then obtain customerData where
    d: "fst (extractCustomerData \<lparr> page = Some (w_page w), screenshots = [] \<rparr>) = Inr customerData"
    and e: "execute w customerName = \<lparr> b_success = True, b_data = Some customerData, b_error = None \<rparr>"
    using execute_cases [of w customerName] by blast
  have "hd (snd (investigate w customerName)) = Research customerData"
    unfolding investigate_def e using investigateFrom_found [THEN conjunct1, of w customerName customerData]
    by (metis list.sel(1))
  moreover have "researchCalls (snd (investigate w customerName)) = 1"
    unfolding investigate_def e by (rule investigateFrom_found [THEN conjunct2])
  ultimately show ?thesis
    using True d by auto
next
  case False
  then obtain m where e: "execute w customerName = browserFailure m"
    using execute_cases [of w customerName] by blast
  have "researchCalls (snd (investigate w customerName)) = 0"
    unfolding investigate_def e
    by (simp add: investigateFrom_failure Let_def researchCalls_def split: sum.splits)
  moreover have "\<exists>reason. snd (investigate w customerName) =
                [Save (generateNotFoundReport customerName reason (w_isoTime w))]"
    unfolding investigate_def e
    by (auto simp: investigateFrom_failure Let_def split: sum.splits)
  ultimately show ?thesis
    using False by simp
qed

theorem found_iff_browser_phase_succeeds_witness:
  "w_initialize sampleWorld = None \<and> w_login sampleWorld = None
   \<and> w_search sampleWorld ''Jane Doe'' = Inr True
   \<and> researchCalls (snd (investigate sampleWorld ''Jane Doe'')) = 1
   \<and> w_search sampleWorld ''John Roe'' = Inr False
   \<and> researchCalls (snd (investigate sampleWorld ''John Roe'')) = 0"
proof -
  have a: "w_initialize sampleWorld = None" and b: "w_login sampleWorld = None"
    and c: "w_search sampleWorld ''Jane Doe'' = Inr True"
    and d: "w_search sampleWorld ''John Roe'' = Inr False"
    by (simp_all add: sampleWorld_def)
  show ?thesis
    using found_iff_browser_phase_succeeds [of sampleWorld "''Jane Doe''"]
      found_iff_browser_phase_succeeds [of sampleWorld "''John Roe''"]
    by (auto simp: a b c d)
qed

text \<open>
  Claim C8, as stated: the field locator returns the first non-empty value found by the
  combinations of label, strategy and position in their fixed order, and the empty
  string when all are exhausted. On the page with two e-mail labels the first non-empty
  value is a single space, and the locator returns the empty string, with the address
  of the second label never read.
\<close>

theorem locator_first_value_counterexample:
  "firstValue paddedPage [''Email'', ''E-mail''] = Some '' ''
   \<and> extractFieldValue (Some paddedPage) [''Email'', ''E-mail''] = []
   \<and> extractFieldValue (Some paddedPage) [''Email'', ''E-mail'']
       \<noteq> (case firstValue paddedPage [''Email'', ''E-mail''] of None \<Rightarrow> [] | Some v \<Rightarrow> v)"
  by code_simp

text \<open>
  Claim C8, amended: the field locator returns the first non-empty value found by the
  combinations of label, strategy and position in their fixed order with the white
  space at its ends removed, so the result is empty when that value is white space
  only; it returns the empty string when no combination yields a non-empty value or
  when there is no page. No case raises an error.
\<close>

theorem locator_returns_trimmed_first_value:
  "extractFieldValue (Some pg) labels = (case firstValue pg labels of None \<Rightarrow> [] | Some v \<Rightarrow> trim v)
   \<and> extractFieldValue None labels = []"
proof -
  have "tryLabels pg labels = (case firstValue pg labels of None \<Rightarrow> [] | Some v \<Rightarrow> trim v)"
  proof (cases "filter truthy (combinations pg labels)")
    case Nil
    then show ?thesis by (simp add: tryLabels_first firstValue_def)
  next
    case (Cons v vs)
    then have "v \<in> set (filter truthy (combinations pg labels))" by simp
    then have "truthy v" by simp
    then obtain t where "v = Some t" using truthy_Some by blast
    then show ?thesis using Cons by (simp add: tryLabels_first firstValue_def)
  qed
  then show ?thesis by (simp add: extractFieldValue_def)
qed

theorem locator_returns_trimmed_first_value_witness:
  "firstValue (labelPage ''E-mail'' ''  jane@example.com '') [''Email'', ''E-mail''] = Some ''  jane@example.com ''
   \<and> extractFieldValue (Some (labelPage ''E-mail'' ''  jane@example.com '')) [''Email'', ''E-mail''] = ''jane@example.com''"
proof -
  have f: "firstValue (labelPage ''E-mail'' ''  jane@example.com '') [''Email'', ''E-mail''] = Some ''  jane@example.com ''"
    by code_simp
  have t: "trim ''  jane@example.com '' = ''jane@example.com''"
    by code_simp
  show ?thesis
    using locator_returns_trimmed_first_value [of "labelPage ''E-mail'' ''  jane@example.com ''" "[''Email'', ''E-mail'']"]
    by (simp add: f t)
qed

text \<open>
  Claim C9. Calling the assembler twice on an unchanged page yields the same customer
  record, field for field (personal fields, risk level, transactions with their
  identifiers and flags, investigations): the first call leaves the page handle as it
  was, and the record, or the error, of the second call is that of the first. Only the
  list of screenshots grows.
\<close>

theorem assemble_twice_same_record:
  "fst (extractCustomerData (snd (extractCustomerData s))) = fst (extractCustomerData s)
   \<and> page (snd (extractCustomerData s)) = page s"
  using extractCustomerData_page_only [OF page_extractCustomerData [of s]] page_extractCustomerData [of s]
  by simp

theorem assemble_twice_same_record_witness:
  "fst (extractCustomerData (snd (extractCustomerData \<lparr> page = Some profilePage, screenshots = [] \<rparr>))) =
     Inr \<lparr> personalInfo =
             \<lparr> name = ''Jane Doe'', dateOfBirth = [], address = [], customerId = Some [],
               email = Some [], phone = Some [], profession = None \<rparr>,
           riskLevel = ''Medium'',
           transactions =
             [ \<lparr> tx_id = ''TXN-1'', tx_date = ''2024-01-15'', tx_amount = ''$4500.00'',
                 counterparty = ''Best Buy'', tx_type = ''Electronics'', tx_status = ''Completed'',
                 flagged = False \<rparr>,
               \<lparr> tx_id = ''TXN-2'', tx_date = ''2024-01-16'', tx_amount = ''$12,500.00'',
                 counterparty = ''Crypto Exchange'', tx_type = ''Transfer'', tx_status = ''Completed'',
                 flagged = True \<rparr> ],
           investigations =
             [ \<lparr> inv_id = ''INV-2023-001'', inv_date = ''2023-11-15'', inv_status = ''Closed'',
                 investigator = ''Compliance Officer'', summary = ''Unusual transaction volume'' \<rparr> ] \<rparr>
   \<and> screenshots (snd (extractCustomerData (snd (extractCustomerData \<lparr> page = Some profilePage, screenshots = [] \<rparr>))))
       = [''customer-profile'', ''customer-profile'']"
proof -
  have one: "fst (extractCustomerData \<lparr> page = Some profilePage, screenshots = [] \<rparr>) =
     Inr \<lparr> personalInfo =
             \<lparr> name = ''Jane Doe'', dateOfBirth = [], address = [], customerId = Some [],
               email = Some [], phone = Some [], profession = None \<rparr>,
           riskLevel = ''Medium'',
           transactions =
             [ \<lparr> tx_id = ''TXN-1'', tx_date = ''2024-01-15'', tx_amount = ''$4500.00'',
                 counterparty = ''Best Buy'', tx_type = ''Electronics'', tx_status = ''Completed'',
                 flagged = False \<rparr>,
               \<lparr> tx_id = ''TXN-2'', tx_date = ''2024-01-16'', tx_amount = ''$12,500.00'',
                 counterparty = ''Crypto Exchange'', tx_type = ''Transfer'', tx_status = ''Completed'',
                 flagged = True \<rparr> ],
           investigations =
             [ \<lparr> inv_id = ''INV-2023-001'', inv_date = ''2023-11-15'', inv_status = ''Closed'',
                 investigator = ''Compliance Officer'', summary = ''Unusual transaction volume'' \<rparr> ] \<rparr>"
    by code_simp
  have shots: "screenshots (snd (extractCustomerData (snd (extractCustomerData \<lparr> page = Some profilePage, screenshots = [] \<rparr>))))
       = [''customer-profile'', ''customer-profile'']"
    by (simp add: extractCustomerData_def extractPersonalInfo_def captureScreenshot_def Let_def)
  show ?thesis
    using assemble_twice_same_record [of "\<lparr> page = Some profilePage, screenshots = [] \<rparr>"] one shots
    by simp
qed

text \<open>
  Claim C10. When the browser phase reports a failure or returns no data, which
  includes the customer that is not found, and the not-found report can be saved,
  \<open>investigate\<close> returns a result with \<open>success = true\<close> that carries the not-found
  report and the path it was saved under. A result with \<open>success = false\<close> is returned
  only when the research phase fails on a customer that was found, or when an error
  thrown on the way (by the saving of a report) reaches the handler of \<open>investigate\<close>.
\<close>

theorem not_found_is_success:
  assumes "notFoundReport = generateNotFoundReport customerName
             (orElse (b_error (execute w customerName)) ''Customer not found'') (w_isoTime w)"
  shows "((\<not> b_success (execute w customerName) \<or> b_data (execute w customerName) = None)
          \<and> w_save w notFoundReport = Inr path
          \<longrightarrow> fst (investigate w customerName) =
                \<lparr> success = True, report = Some notFoundReport, reportPath = Some path,
                  error = None, duration = w_endTime w - w_startTime w \<rparr>)
   \<and> (\<not> success (fst (investigate w customerName))
          \<longrightarrow> (\<exists>customerData. b_success (execute w customerName)
                  \<and> b_data (execute w customerName) = Some customerData
                  \<and> (\<not> r_success (researchExecute w customerData)
                       \<or> r_report (researchExecute w customerData) = None))
              \<or> (\<exists>rep m. Save rep \<in> set (snd (investigate w customerName)) \<and> w_save w rep = Inl m))"
proof (intro conjI impI)
  assume "(\<not> b_success (execute w customerName) \<or> b_data (execute w customerName) = None)
          \<and> w_save w notFoundReport = Inr path"
  then show "fst (investigate w customerName) =
                \<lparr> success = True, report = Some notFoundReport, reportPath = Some path,
                  error = None, duration = w_endTime w - w_startTime w \<rparr>"
    unfolding assms by (auto simp: investigate_def investigateFrom_def Let_def succeeded_def)
next
  assume f: "\<not> success (fst (investigate w customerName))"
  show "(\<exists>customerData. b_success (execute w customerName)
                  \<and> b_data (execute w customerName) = Some customerData
                  \<and> (\<not> r_success (researchExecute w customerData)
                       \<or> r_report (researchExecute w customerData) = None))
              \<or> (\<exists>rep m. Save rep \<in> set (snd (investigate w customerName)) \<and> w_save w rep = Inl m)"
  proof (cases "\<not> b_success (execute w customerName) \<or> b_data (execute w customerName) = None")
    case True
    then show ?thesis
      using f
      by (auto simp: investigate_def investigateFrom_def Let_def success_failed success_succeeded
               split: sum.splits)
  next
    case False
    then obtain customerData where d: "b_data (execute w customerName) = Some customerData"
      and s: "b_success (execute w customerName)" by auto
    show ?thesis
    proof (cases "\<not> r_success (researchExecute w customerData) \<or> r_report (researchExecute w customerData) = None")
      case True
      then show ?thesis using d s by blast
    next
      case False
      then show ?thesis
        using f d s
        by (auto simp: investigate_def investigateFrom_def Let_def success_failed success_succeeded
                 split: sum.splits)
    qed
  qed
qed

text \<open>
  A customer that is not found gives a successful result; a customer that is found
  while the language model is out of reach gives a failure, and so does a customer that
  is not found when reports cannot be written.
\<close>

theorem not_found_is_success_witness:
  "\<not> b_success (execute sampleWorld ''John Roe'')
   \<and> w_save sampleWorld (generateNotFoundReport ''John Roe''
        (''Customer '' @ dq @ ''John Roe'' @ dq @ '' not found in ComplianceOS'') ''2024-02-01T09:00:00.000Z'')
       = Inr ''reports/compliance_report.md''
   \<and> fst (investigate sampleWorld ''John Roe'') =
        \<lparr> success = True,
          report = Some (generateNotFoundReport ''John Roe''
            (''Customer '' @ dq @ ''John Roe'' @ dq @ '' not found in ComplianceOS'') ''2024-02-01T09:00:00.000Z''),
          reportPath = Some ''reports/compliance_report.md'',
          error = None, duration = 1500 \<rparr>
   \<and> \<not> success (fst (investigate sampleWorld ''Jane Doe''))
   \<and> b_success (execute sampleWorld ''Jane Doe'')
   \<and> \<not> success (fst (investigate readOnlyWorld ''John Roe''))"
proof -
  have e: "execute sampleWorld ''John Roe'' =
      browserFailure (''Customer '' @ dq @ ''John Roe'' @ dq @ '' not found in ComplianceOS'')"
    by (rule execute_not_found) (simp_all add: sampleWorld_def)
  have o: "orElse (b_error (execute sampleWorld ''John Roe'')) ''Customer not found'' =
      ''Customer '' @ dq @ ''John Roe'' @ dq @ '' not found in ComplianceOS''"
    by (simp add: e browserFailure_def orElse_def)
  have t: "w_isoTime sampleWorld = ''2024-02-01T09:00:00.000Z''"
    and s: "\<And>rep. w_save sampleWorld rep = Inr ''reports/compliance_report.md''"
    and d: "w_endTime sampleWorld - w_startTime sampleWorld = 1500"
    by (simp_all add: sampleWorld_def)
  have nb: "\<not> b_success (execute sampleWorld ''John Roe'')"
    by (simp add: e browserFailure_def)
  have j: "\<not> success (fst (investigate sampleWorld ''Jane Doe''))"
    by code_simp
  have jb: "b_success (execute sampleWorld ''Jane Doe'')"
    by code_simp
  have r: "\<not> success (fst (investigate readOnlyWorld ''John Roe''))"
    by code_simp
  show ?thesis
    using not_found_is_success [OF refl, of sampleWorld "''John Roe''" "''reports/compliance_report.md''",
            THEN conjunct1] nb j jb r
    unfolding o t d by (simp only: s simp_thms)
qed

end
